theory Spec2Isabelle
  imports Complex_Main "HOL-Library.Char_ord" "HOL-Library.List_Lexorder"
begin

section \<open>Python and numpy primitives used by \<open>server.py\<close>\<close>

text \<open>
  Exceptions are values. \<open>ValueError\<close> and \<open>KeyError\<close> are the two the modelled library
  calls raise themselves; \<open>LibraryError\<close> stands for any other \<open>Exception\<close> raised inside
  an external model (detector, embedder, classifier) or the transport.
\<close>

datatype exn = ValueError | KeyError | LibraryError string

text \<open>
  A numpy float. The finite values are modelled by exact reals (rounding and overflow are
  abstracted away); the special values of IEEE 754 are kept, because numpy's division
  returns them instead of raising.
\<close>

datatype npfloat = Num real | PosInf | NegInf | NaN

text \<open>\<open>a / b\<close> on numpy floats with finite operands: a zero divisor yields \<open>nan\<close> or an
  infinity (with a \<open>RuntimeWarning\<close>, which is not an exception).\<close>

definition np_divide :: "real \<Rightarrow> real \<Rightarrow> npfloat" where
  "np_divide a b =
     (if b \<noteq> 0 then Num (a / b)
      else if a = 0 then NaN
      else if 0 < a then PosInf else NegInf)"

text \<open>\<open>a < b\<close> on floats: every comparison with \<open>nan\<close> is false.\<close>

fun np_less :: "npfloat \<Rightarrow> npfloat \<Rightarrow> bool" where
  "np_less NaN _ = False"
| "np_less _ NaN = False"
| "np_less (Num a) (Num b) = (a < b)"
| "np_less _ NegInf = False"
| "np_less NegInf _ = True"
| "np_less PosInf _ = False"
| "np_less _ PosInf = True"

text \<open>\<open>a > b\<close> is \<open>b < a\<close>.\<close>

definition np_greater :: "npfloat \<Rightarrow> npfloat \<Rightarrow> bool" where
  "np_greater a b = np_less b a"

text \<open>\<open>np.maximum\<close> of two values propagates \<open>nan\<close>.\<close>

definition np_maximum :: "npfloat \<Rightarrow> npfloat \<Rightarrow> npfloat" where
  "np_maximum a b =
     (if a = NaN \<or> b = NaN then NaN else if np_less a b then b else a)"

text \<open>\<open>np.max\<close> of a one-dimensional array: \<open>ValueError\<close> on a zero-size array.\<close>

fun np_max :: "npfloat list \<Rightarrow> exn + npfloat" where
  "np_max [] = Inl ValueError"
| "np_max (x # xs) = Inr (foldl np_maximum x xs)"

text \<open>\<open>int(x)\<close> of a finite float truncates towards zero.\<close>

definition py_int :: "real \<Rightarrow> int" where
  "py_int x = (if 0 \<le> x then \<lfloor>x\<rfloor> else \<lceil>x\<rceil>)"

text \<open>\<open>str(n)\<close> of a non-negative integer: its decimal digits.\<close>

definition digit_char :: "nat \<Rightarrow> char" where
  "digit_char d = ''0123456789'' ! d"

fun str_nat :: "nat \<Rightarrow> string" where
  "str_nat n = (if n < 10 then [digit_char n] else str_nat (n div 10) @ [digit_char (n mod 10)])"

declare str_nat.simps [simp del]

text \<open>A slice bound of \<open>xs[a:b]\<close> on a sequence of length \<open>n\<close>: negative bounds count
  from the end, and every bound is clamped into \<open>0..n\<close>.\<close>

definition slice_index :: "nat \<Rightarrow> int \<Rightarrow> nat" where
  "slice_index n i = (if i < 0 then nat (max 0 (int n + i)) else min n (nat i))"

definition py_slice :: "'a list \<Rightarrow> int \<Rightarrow> int \<Rightarrow> 'a list" where
  "py_slice xs a b =
     (let lo = slice_index (length xs) a; hi = slice_index (length xs) b
      in take (hi - lo) (drop lo xs))"

text \<open>\<open>np.dot\<close> of two vectors of equal length and \<open>np.linalg.norm\<close> of a vector.\<close>

definition dot :: "real list \<Rightarrow> real list \<Rightarrow> real" where
  "dot u v = sum_list (map2 (*) u v)"

definition linalg_norm :: "real list \<Rightarrow> real" where
  "linalg_norm v = sqrt (sum_list (map (\<lambda>x. x * x) v))"

section \<open>Data model\<close>

text \<open>An image is a height by width array of three-channel pixels, as a list of rows.\<close>

type_synonym pixel = "nat \<times> nat \<times> nat"
type_synonym image = "pixel list list"

text \<open>\<open>img.size\<close>: rows times columns times channels.\<close>

definition img_size :: "image \<Rightarrow> nat" where
  "img_size img = length img * (case img of [] \<Rightarrow> 0 | r # _ \<Rightarrow> length r) * 3"

text \<open>\<open>cv2.cvtColor(frame, cv2.COLOR_BGR2RGB)\<close> swaps the outer channels and raises
  \<open>cv2.error\<close> on an empty source.\<close>

definition cvtColor_BGR2RGB :: "image \<Rightarrow> exn + image" where
  "cvtColor_BGR2RGB frame =
     (if img_size frame = 0 then Inl (LibraryError ''cv2.error'')
      else Inr (map (map (\<lambda>(b, g, r). (r, g, b))) frame))"

text \<open>\<open>rgb_img[y1:y2, x1:x2]\<close>.\<close>

definition crop :: "image \<Rightarrow> int \<Rightarrow> int \<Rightarrow> int \<Rightarrow> int \<Rightarrow> image" where
  "crop img x1 y1 x2 y2 = map (\<lambda>row. py_slice row x1 x2) (py_slice img y1 y2)"

text \<open>The four corner coordinates \<open>box.xyxy[0]\<close> of a detected box, as finite floats.\<close>

type_synonym xyxy = "real \<times> real \<times> real \<times> real"

text \<open>\<open>x1, y1, x2, y2 = map(int, box.xyxy[0])\<close>.\<close>

definition int_corners :: "xyxy \<Rightarrow> int \<times> int \<times> int \<times> int" where
  "int_corners bx = (case bx of (fx1, fy1, fx2, fy2) \<Rightarrow> (py_int fx1, py_int fy1, py_int fx2, py_int fy2))"

type_synonym websocket = nat

record detected_face =
  face_id :: string
  name :: string
  confidence :: npfloat
  box :: "int list"
  timestamp :: int

record status =
  isDetecting :: bool
  lastUpdated :: int

record response =
  status :: status
  faces :: "detected_face list"

datatype log_record =
    Error_similarity exn
  | Error_face exn
  | Error_traceback exn
  | Error_video_source
  | Warning_frame_read
  | Info_broadcasting nat
  | Error_send exn
  | Info_connected websocket
  | Info_disconnected websocket

text \<open>
  The server object after \<open>initialize_models\<close>, together with the library calls whose
  results the code consumes. The loaded models are opaque resources, so each is the function
  the code calls on it:
  \<^item> \<open>model_predict\<close>: \<open>self.model.predict(source=frame, ...)\<close>, the results, each with the
    \<open>xyxy[0]\<close> of its boxes;
  \<^item> \<open>facenet_embeddings\<close>: \<open>cv2.resize\<close> to 160 by 160, \<open>np.expand_dims\<close> and
    \<open>self.facenet.embeddings\<close>, applied to the crop, giving the single embedding row;
  \<^item> \<open>svm_predict\<close>: \<open>self.svm_model.predict(embedding)[0]\<close>;
  \<^item> \<open>Y\<close>, \<open>labels\<close>: the gallery arrays \<open>arr_0\<close> and \<open>arr_1\<close>;
  \<^item> \<open>time_time\<close>: the value returned by the k-th call of \<open>time.time()\<close>;
  \<^item> \<open>json_dumps\<close>: \<open>json.dumps\<close>.
\<close>

record server =
  model_predict :: "image \<Rightarrow> exn + xyxy list list"
  facenet_embeddings :: "image \<Rightarrow> exn + real list"
  svm_predict :: "real list \<Rightarrow> exn + int"
  Y :: "real list list"
  labels :: "string list"
  time_time :: "nat \<Rightarrow> real"
  json_dumps :: "response \<Rightarrow> string"

text \<open>\<open>LabelEncoder().fit_transform(labels)\<close> stores the sorted distinct labels as
  \<open>classes_\<close>; \<open>inverse_transform([i])[0]\<close> is \<open>classes_[i]\<close> and raises \<open>ValueError\<close> for an
  index outside \<open>0..len(classes_)-1\<close>.\<close>

definition encoder_classes :: "server \<Rightarrow> string list" where
  "encoder_classes srv = sort (remdups (labels srv))"

definition inverse_transform :: "string list \<Rightarrow> int \<Rightarrow> exn + string" where
  "inverse_transform cls i =
     (if 0 \<le> i \<and> i < int (length cls) then Inr (cls ! nat i) else Inl ValueError)"

section \<open>\<open>calculate_similarity\<close>\<close>

text \<open>
  The probe is one embedding row, the gallery a matrix with one row per entry. \<open>np.dot\<close>
  raises \<open>ValueError\<close> when the row lengths differ; the \<open>except\<close> branch logs it and
  returns \<open>np.zeros(len(embeddings2))\<close>. The division itself never raises. The result is
  returned flattened, with the records logged. The products, sums, roots and quotients of
  finite values are exact here, where numpy rounds each of them: a similarity computed by
  the code can differ from the value here in its last digits, and so can its comparison
  with the threshold when the exact value lies on the threshold.
\<close>

definition calculate_similarity :: "real list \<Rightarrow> real list list \<Rightarrow> npfloat list \<times> log_record list" where
  "calculate_similarity embedding1 embeddings2 =
     (if list_all (\<lambda>row. length row = length embedding1) embeddings2
      then (map (\<lambda>row. np_divide (dot embedding1 row)
                          (linalg_norm embedding1 * linalg_norm row)) embeddings2, [])
      else (replicate (length embeddings2) (Num 0), [Error_similarity ValueError]))"

section \<open>\<open>process_frame\<close>\<close>

text \<open>
  The body of the \<open>try\<close> for one box, given the number \<open>n\<close> of faces appended so far and the
  number \<open>t\<close> of clock readings taken so far. It returns the records logged, and either the
  exception raised, or \<open>None\<close> for the \<open>continue\<close> on an empty crop, or the face appended.
\<close>

definition face_body ::
  "server \<Rightarrow> image \<Rightarrow> nat \<Rightarrow> nat \<Rightarrow> xyxy \<Rightarrow> log_record list \<times> (exn + detected_face option)" where
  "face_body srv rgb_img n t bx =
     (case int_corners bx of (x1, y1, x2, y2) \<Rightarrow>
        let face_img = crop rgb_img x1 y1 x2 y2
        in if img_size face_img = 0 then ([], Inr None)
           else (case facenet_embeddings srv face_img of
                   Inl e \<Rightarrow> ([], Inl e)
                 | Inr embedding \<Rightarrow>
                     (case calculate_similarity embedding (Y srv) of
                        (similarities, lg) \<Rightarrow>
                          (case np_max similarities of
                             Inl e \<Rightarrow> (lg, Inl e)
                           | Inr max_similarity \<Rightarrow>
                               (case (if np_greater max_similarity (Num (6 / 10))
                                      then (case svm_predict srv embedding of
                                              Inl e \<Rightarrow> Inl e
                                            | Inr face_idx \<Rightarrow> inverse_transform (encoder_classes srv) face_idx)
                                      else Inr ''Visitor'') of
                                  Inl e \<Rightarrow> (lg, Inl e)
                                | Inr nm \<Rightarrow>
                                    (lg, Inr (Some \<lparr>face_id = str_nat n, name = nm,
                                                    confidence = max_similarity,
                                                    box = [x1, y1, x2 - x1, y2 - y1],
                                                    timestamp = py_int (time_time srv t * 1000)\<rparr>)))))))"

text \<open>
  The inner \<open>for box in result.boxes\<close>, on the triple of \<open>detected_faces\<close>, the number of
  clock readings taken and the log. An exception from the body is caught: two error records
  are logged and the loop goes on with the next box.
\<close>

fun boxes_loop ::
  "server \<Rightarrow> image \<Rightarrow> xyxy list \<Rightarrow> detected_face list \<times> nat \<times> log_record list
     \<Rightarrow> detected_face list \<times> nat \<times> log_record list" where
  "boxes_loop srv rgb_img [] acc = acc"
| "boxes_loop srv rgb_img (bx # rest) (detected_faces, t, lg) =
     (case face_body srv rgb_img (length detected_faces) t bx of
        (l, Inr None) \<Rightarrow> boxes_loop srv rgb_img rest (detected_faces, t, lg @ l)
      | (l, Inr (Some f)) \<Rightarrow> boxes_loop srv rgb_img rest (detected_faces @ [f], Suc t, lg @ l)
      | (l, Inl e) \<Rightarrow>
          boxes_loop srv rgb_img rest (detected_faces, t, lg @ l @ [Error_face e, Error_traceback e]))"

text \<open>The outer \<open>for result in results\<close>.\<close>

fun results_loop ::
  "server \<Rightarrow> image \<Rightarrow> xyxy list list \<Rightarrow> detected_face list \<times> nat \<times> log_record list
     \<Rightarrow> detected_face list \<times> nat \<times> log_record list" where
  "results_loop srv rgb_img [] acc = acc"
| "results_loop srv rgb_img (result # rest) acc =
     results_loop srv rgb_img rest (boxes_loop srv rgb_img result acc)"

text \<open>
  \<open>process_frame\<close>, started after \<open>t\<close> clock readings. The colour conversion and the
  detector call stand outside the \<open>try\<close>: their exceptions leave the function. The result
  is \<open>detected_faces\<close>, with the number of clock readings taken and the records logged.
\<close>

definition process_frame ::
  "server \<Rightarrow> image \<Rightarrow> nat \<Rightarrow> exn + (detected_face list \<times> nat \<times> log_record list)" where
  "process_frame srv frame t =
     (case cvtColor_BGR2RGB frame of
        Inl e \<Rightarrow> Inl e
      | Inr rgb_img \<Rightarrow>
          (case model_predict srv frame of
             Inl e \<Rightarrow> Inl e
           | Inr results \<Rightarrow> Inr (results_loop srv rgb_img results ([], t, []))))"

section \<open>The connection registry: \<open>handle_connection\<close>\<close>

text \<open>
  \<open>self.active_connections\<close> is a Python set of connection objects. It is represented by
  the list of its distinct members; the order stands for the unspecified iteration order of
  the set. \<open>set.add\<close> keeps a member that is already present, \<open>set.remove\<close> raises
  \<open>KeyError\<close> for a missing one.
\<close>

definition set_add :: "websocket \<Rightarrow> websocket list \<Rightarrow> websocket list" where
  "set_add ws conns = (if ws \<in> set conns then conns else conns @ [ws])"

definition set_remove :: "websocket \<Rightarrow> websocket list \<Rightarrow> exn + websocket list" where
  "set_remove ws conns = (if ws \<in> set conns then Inr (removeAll ws conns) else Inl KeyError)"

text \<open>
  What the program does is recorded as a trace of actions, in program order: the records
  logged, every call of \<open>json.dumps\<close> with its argument, every \<open>ws.send\<close> with the message
  and the exception it raised if any, and the sleep that ends a cycle.
\<close>

datatype action =
    Log log_record
  | Dumps response
  | Send websocket string "exn option"
  | Sleep
  | Handler_raised websocket exn

record state =
  active_connections :: "websocket list"
  clock_reads :: nat
  trace :: "action list"

text \<open>
  \<open>handle_connection\<close> runs in two parts around \<open>await websocket.wait_closed()\<close>: on
  connection it adds the socket and logs; when the socket has closed, the \<open>finally\<close> block
  removes it and logs. Each part is one event, run by the scheduler while the broadcast
  loop is suspended.
\<close>

datatype event = Connect websocket | Closed websocket

fun handle_connection :: "event \<Rightarrow> state \<Rightarrow> state" where
  "handle_connection (Connect ws) s =
     s\<lparr>active_connections := set_add ws (active_connections s),
       trace := trace s @ [Log (Info_connected ws)]\<rparr>"
| "handle_connection (Closed ws) s =
     (case set_remove ws (active_connections s) of
        Inl e \<Rightarrow> s\<lparr>trace := trace s @ [Handler_raised ws e]\<rparr>
      | Inr conns \<Rightarrow> s\<lparr>active_connections := conns,
                        trace := trace s @ [Log (Info_disconnected ws)]\<rparr>)"

definition run_events :: "event list \<Rightarrow> state \<Rightarrow> state" where
  "run_events evs s = foldl (\<lambda>s' ev. handle_connection ev s') s evs"

section \<open>\<open>video_stream_loop\<close>\<close>

text \<open>
  What one cycle of the loop meets from outside: the result of \<open>cap.read()\<close> (\<open>None\<close> when
  \<open>ret\<close> is false), for each socket the exception its \<open>send\<close> raises, the connection events
  that run while the loop is suspended in the \<open>send\<close> to a socket, and those that run during
  \<open>asyncio.sleep\<close>.
\<close>

record cycle =
  cap_read :: "image option"
  ws_send :: "websocket \<Rightarrow> exn option"
  during_send :: "websocket \<Rightarrow> event list"
  during_sleep :: "event list"

text \<open>
  The \<open>for ws in list(self.active_connections)\<close> loop over the copied list: each round
  serialises the response, sends it, catches and logs an exception of the send, and lets
  the scheduler run the pending connection events.
\<close>

fun send_loop :: "server \<Rightarrow> cycle \<Rightarrow> response \<Rightarrow> websocket list \<Rightarrow> state \<Rightarrow> state" where
  "send_loop srv c resp [] s = s"
| "send_loop srv c resp (ws # rest) s =
     (let msg = json_dumps srv resp;
          s1 = s\<lparr>trace := trace s @ [Dumps resp]\<rparr>;
          s2 = (case ws_send c ws of
                  None \<Rightarrow> s1\<lparr>trace := trace s1 @ [Send ws msg None]\<rparr>
                | Some e \<Rightarrow> s1\<lparr>trace := trace s1 @ [Send ws msg (Some e), Log (Error_send e)]\<rparr>);
          s3 = run_events (during_send c ws) s2
      in send_loop srv c resp rest s3)"

text \<open>The response dictionary built from the faces and the clock reading number \<open>t\<close>.\<close>

definition make_response :: "server \<Rightarrow> detected_face list \<Rightarrow> nat \<Rightarrow> response" where
  "make_response srv fs t =
     \<lparr>status = \<lparr>isDetecting = True, lastUpdated = py_int (time_time srv t * 1000)\<rparr>,
      faces = fs\<rparr>"

text \<open>
  One round of the \<open>while True\<close> body. A failed read logs a warning and starts the next
  round at once. An exception of \<open>process_frame\<close> is not caught here and leaves the loop.
\<close>

definition cycle_step :: "server \<Rightarrow> cycle \<Rightarrow> state \<Rightarrow> exn + state" where
  "cycle_step srv c s =
     (case cap_read c of
        None \<Rightarrow> Inr (s\<lparr>trace := trace s @ [Log Warning_frame_read]\<rparr>)
      | Some frame \<Rightarrow>
          (case process_frame srv frame (clock_reads s) of
             Inl e \<Rightarrow> Inl e
           | Inr (fs, t, lg) \<Rightarrow>
               let resp = make_response srv fs t;
                   s1 = s\<lparr>clock_reads := Suc t, trace := trace s @ map Log lg\<rparr>;
                   s2 = (if active_connections s1 \<noteq> []
                         then s1\<lparr>trace := trace s1 @ [Log (Info_broadcasting (length (active_connections s1)))]\<rparr>
                         else s1);
                   s3 = send_loop srv c resp (active_connections s2) s2;
                   s4 = s3\<lparr>trace := trace s3 @ [Sleep]\<rparr>
               in Inr (run_events (during_sleep c) s4)))"

text \<open>The \<open>while True\<close> loop on the cycles supplied: it stops only when an exception
  leaves a round.\<close>

fun while_True :: "server \<Rightarrow> cycle list \<Rightarrow> state \<Rightarrow> exn + state" where
  "while_True srv [] s = Inr s"
| "while_True srv (c # cs) s =
     (case cycle_step srv c s of Inl e \<Rightarrow> Inl e | Inr s' \<Rightarrow> while_True srv cs s')"

text \<open>
  \<open>video_stream_loop\<close>, given whether \<open>cap.isOpened()\<close> holds and the cycles that follow:
  it returns at once when the source did not open, an exception may leave it, and otherwise
  it is still streaming after the cycles supplied.
\<close>

datatype loop_result = Returned state | Raised exn | Streaming state

definition video_stream_loop :: "server \<Rightarrow> bool \<Rightarrow> cycle list \<Rightarrow> state \<Rightarrow> loop_result" where
  "video_stream_loop srv isOpened cycles s =
     (if \<not> isOpened then Returned (s\<lparr>trace := trace s @ [Log Error_video_source]\<rparr>)
      else (case while_True srv cycles s of Inl e \<Rightarrow> Raised e | Inr s' \<Rightarrow> Streaming s'))"

section \<open>Notions used to state the properties\<close>

text \<open>The crop taken for a box and the \<open>box\<close> entry written for it (lines 53, 54 and 71).\<close>

definition face_crop :: "image \<Rightarrow> xyxy \<Rightarrow> image" where
  "face_crop rgb_img bx = (case int_corners bx of (x1, y1, x2, y2) \<Rightarrow> crop rgb_img x1 y1 x2 y2)"

definition xywh :: "xyxy \<Rightarrow> int list" where
  "xywh bx = (case int_corners bx of (x1, y1, x2, y2) \<Rightarrow> [x1, y1, x2 - x1, y2 - y1])"

text \<open>How the body ends for a box: a face is appended, the box is skipped by the
  \<open>continue\<close>, or an exception is raised (and caught by the loop).\<close>

datatype outcome = Appended | Skipped | Failed

definition box_outcome :: "server \<Rightarrow> image \<Rightarrow> xyxy \<Rightarrow> outcome" where
  "box_outcome srv rgb_img bx =
     (case snd (face_body srv rgb_img 0 0 bx) of
        Inl e \<Rightarrow> Failed
      | Inr None \<Rightarrow> Skipped
      | Inr (Some f) \<Rightarrow> Appended)"

text \<open>Projections of a trace: the sends with socket, message and exception raised, the
  arguments of the calls of \<open>json.dumps\<close>, and the records logged.\<close>

definition sends :: "action list \<Rightarrow> (websocket \<times> string \<times> exn option) list" where
  "sends tr = concat (map (\<lambda>a. case a of Send ws msg r \<Rightarrow> [(ws, msg, r)] | _ \<Rightarrow> []) tr)"

definition dumps_calls :: "action list \<Rightarrow> response list" where
  "dumps_calls tr = concat (map (\<lambda>a. case a of Dumps resp \<Rightarrow> [resp] | _ \<Rightarrow> []) tr)"

definition logged :: "action list \<Rightarrow> log_record list" where
  "logged tr = concat (map (\<lambda>a. case a of Log r \<Rightarrow> [r] | _ \<Rightarrow> []) tr)"

text \<open>A cycle whose frame, if one was read, gets through the two calls of
  \<open>process_frame\<close> that stand outside the \<open>try\<close>.\<close>

definition frame_ok :: "server \<Rightarrow> cycle \<Rightarrow> bool" where
  "frame_ok srv c =
     (case cap_read c of
        None \<Rightarrow> True
      | Some frame \<Rightarrow> img_size frame \<noteq> 0 \<and> isl (model_predict srv frame) = False)"

text \<open>The exceptions recorded in a log by the handler of the per-face \<open>try\<close> and by the
  handler of the send, and the exceptions that the sends of a trace raised.\<close>

definition face_errors :: "log_record list \<Rightarrow> exn list" where
  "face_errors lg = concat (map (\<lambda>r. case r of Error_face e \<Rightarrow> [e] | _ \<Rightarrow> []) lg)"

definition send_errors :: "log_record list \<Rightarrow> exn list" where
  "send_errors lg = concat (map (\<lambda>r. case r of Error_send e \<Rightarrow> [e] | _ \<Rightarrow> []) lg)"

definition send_failures :: "action list \<Rightarrow> exn list" where
  "send_failures tr =
     concat (map (\<lambda>(ws, msg, r). case r of None \<Rightarrow> [] | Some e \<Rightarrow> [e]) (sends tr))"

text \<open>The number of boxes of a cycle's frame for which the body raises.\<close>

definition failed_boxes :: "server \<Rightarrow> cycle \<Rightarrow> nat" where
  "failed_boxes srv c =
     (case cap_read c of
        None \<Rightarrow> 0
      | Some frame \<Rightarrow>
          (case cvtColor_BGR2RGB frame of
             Inl e \<Rightarrow> 0
           | Inr rgb \<Rightarrow>
               (case model_predict srv frame of
                  Inl e \<Rightarrow> 0
                | Inr results \<Rightarrow>
                    length (filter (\<lambda>bx. box_outcome srv rgb bx = Failed) (concat results)))))"

section \<open>A concrete server\<close>

text \<open>
  A small instance on which the functions above are evaluated. Frames are uniform images
  with four columns; the detector's answer depends on the height of the frame, the
  embedding on the height of the crop. The gallery holds one row for \<open>alice\<close> and one for
  \<open>bob\<close>; the classifier answers class 1 (\<open>bob\<close>) for one probe and class 0 otherwise.
\<close>

definition demo_frame :: "nat \<Rightarrow> image" where
  "demo_frame h = replicate h (replicate 4 (10, 20, 30))"

definition demo_rgb :: "nat \<Rightarrow> image" where
  "demo_rgb h = replicate h (replicate 4 (30, 20, 10))"

definition demo_predict :: "image \<Rightarrow> exn + xyxy list list" where
  "demo_predict frame =
     (if length frame = 5 then Inr [[(0, 0, 5 / 2, 29 / 10), (1, 1, 1, 3)], [(0, 1, 4, 2), (1 / 5, 0, 37 / 10, 3)]]
      else if length frame = 6 then Inr [[(0, 0, 5 / 2, 29 / 10), (0, 1, 4, 2), (1 / 5, 0, 37 / 10, 3)]]
      else if length frame = 7 then Inr [[(1, 0, 3, 4)]]
      else if length frame = 8 then Inr [[(0, 0, 4, 5)]]
      else if length frame = 9 then Inr [[]]
      else if length frame = 10 then Inr [[(0, 0, 5 / 2, 29 / 10)]]
      else Inl (LibraryError ''detector''))"

definition demo_embeddings :: "image \<Rightarrow> exn + real list" where
  "demo_embeddings face_img =
     (if length face_img = 1 then Inl (LibraryError ''embedder'')
      else if length face_img = 2 then Inr [19, 5, 3, 2, 1]
      else if length face_img = 3 then Inr [3, 0, 4, 0, 0]
      else if length face_img = 4 then Inr [19, 1, 2, 3, 5]
      else Inr [0, 0, 0, 0, 0])"

definition demo_server :: server where
  "demo_server =
     \<lparr>model_predict = demo_predict,
      facenet_embeddings = demo_embeddings,
      svm_predict = (\<lambda>embedding. if embedding = [19, 5, 3, 2, 1] then Inr 1 else Inr 0),
      Y = [[1, 0, 0, 0, 0], [0, 1, 0, 0, 0]],
      labels = [''alice'', ''bob''],
      time_time = (\<lambda>k. 1700000000 + real k / 4),
      json_dumps = (\<lambda>resp. concat (map name (faces resp)))\<rparr>"

text \<open>The concrete server with a gallery whose second row has norm zero.\<close>

definition degenerate_server :: server where
  "degenerate_server = demo_server\<lparr>Y := [[1, 0, 0, 0, 0], [0, 0, 0, 0, 0]]\<rparr>"

text \<open>The face the concrete server appends as number \<open>n\<close> at clock reading \<open>t\<close>.\<close>

definition demo_face :: "nat \<Rightarrow> string \<Rightarrow> npfloat \<Rightarrow> int list \<Rightarrow> nat \<Rightarrow> detected_face" where
  "demo_face n nm conf bx t =
     \<lparr>face_id = str_nat n, name = nm, confidence = conf, box = bx,
      timestamp = py_int (time_time demo_server t * 1000)\<rparr>"

text \<open>
  Two cycles on a frame: in the quiet one every send succeeds and no connection event
  happens; in the busy one the send to socket 2 raises, socket 3 closes and socket 4
  connects while the loop is suspended in the send to socket 1, and socket 5 connects
  during the sleep.
\<close>

definition quiet_cycle :: "image \<Rightarrow> cycle" where
  "quiet_cycle frame =
     \<lparr>cap_read = Some frame, ws_send = (\<lambda>ws. None), during_send = (\<lambda>ws. []), during_sleep = []\<rparr>"

definition busy_cycle :: "image \<Rightarrow> cycle" where
  "busy_cycle frame =
     \<lparr>cap_read = Some frame,
      ws_send = (\<lambda>ws. if ws = 2 then Some (LibraryError ''ConnectionClosed'') else None),
      during_send = (\<lambda>ws. if ws = 1 then [Closed 3, Connect 4] else []),
      during_sleep = [Connect 5]\<rparr>"

text \<open>A cycle in which every send raises and no connection event happens.\<close>

definition failing_cycle :: "image \<Rightarrow> cycle" where
  "failing_cycle frame =
     \<lparr>cap_read = Some frame, ws_send = (\<lambda>ws. Some (LibraryError ''ConnectionClosed'')),
      during_send = (\<lambda>ws. []), during_sleep = []\<rparr>"

definition demo_state :: "websocket list \<Rightarrow> state" where
  "demo_state conns = \<lparr>active_connections = conns, clock_reads = 0, trace = []\<rparr>"

definition missed_cycle :: cycle where
  "missed_cycle =
     \<lparr>cap_read = None, ws_send = (\<lambda>ws. None), during_send = (\<lambda>ws. []), during_sleep = []\<rparr>"

text \<open>The response the concrete server builds for frame 7 when no clock reading was taken
  before, and the states after the quiet cycle started with the sockets 1 and 2 and after
  the busy cycle started with the sockets 1, 2 and 3.\<close>

definition alice_response :: response where
  "alice_response =
     \<lparr>status = \<lparr>isDetecting = True, lastUpdated = 1700000000250\<rparr>,
      faces = [\<lparr>face_id = ''0'', name = ''alice'', confidence = Num (95 / 100),
                box = [1, 0, 2, 4], timestamp = 1700000000000\<rparr>]\<rparr>"

definition after_quiet_cycle :: state where
  "after_quiet_cycle =
     \<lparr>active_connections = [1, 2], clock_reads = 2,
      trace = [Log (Info_broadcasting 2),
               Dumps alice_response, Send 1 ''alice'' None,
               Dumps alice_response, Send 2 ''alice'' None,
               Sleep]\<rparr>"

definition after_busy_cycle :: state where
  "after_busy_cycle =
     \<lparr>active_connections = [1, 2, 4, 5], clock_reads = 2,
      trace = [Log (Info_broadcasting 3),
               Dumps alice_response, Send 1 ''alice'' None,
               Log (Info_disconnected 3), Log (Info_connected 4),
               Dumps alice_response, Send 2 ''alice'' (Some (LibraryError ''ConnectionClosed'')),
               Log (Error_send (LibraryError ''ConnectionClosed'')),
               Dumps alice_response, Send 3 ''alice'' None,
               Sleep,
               Log (Info_connected 5)]\<rparr>"

section \<open>Auxiliary facts about \<open>process_frame\<close>\<close>

lemma face_body_emitted:
  assumes "face_body srv rgb n t bx = (l, Inr (Some f))"
  shows "\<exists>embedding. img_size (face_crop rgb bx) \<noteq> 0
      \<and> facenet_embeddings srv (face_crop rgb bx) = Inr embedding
      \<and> np_max (fst (calculate_similarity embedding (Y srv))) = Inr (confidence f)
      \<and> (if np_greater (confidence f) (Num (6 / 10))
           then (\<exists>idx. svm_predict srv embedding = Inr idx
                   \<and> inverse_transform (encoder_classes srv) idx = Inr (name f))
           else name f = ''Visitor'')
      \<and> face_id f = str_nat n \<and> box f = xywh bx
      \<and> timestamp f = py_int (time_time srv t * 1000)"
  using assms
  by (auto simp: face_body_def face_crop_def xywh_def Let_def split: prod.splits sum.splits if_splits)

lemma face_body_outcome:
  "(case snd (face_body srv rgb n t bx) of Inl e \<Rightarrow> Failed | Inr None \<Rightarrow> Skipped | Inr (Some f) \<Rightarrow> Appended)
     = box_outcome srv rgb bx"
  by (auto simp: box_outcome_def face_body_def Let_def split: prod.splits sum.splits if_splits)

lemma face_body_cases:
  obtains (raised) l e where "face_body srv rgb n t bx = (l, Inl e)" "box_outcome srv rgb bx = Failed"
  | (skipped) l where "face_body srv rgb n t bx = (l, Inr None)" "box_outcome srv rgb bx = Skipped"
  | (appended) l f where "face_body srv rgb n t bx = (l, Inr (Some f))" "box_outcome srv rgb bx = Appended"
proof -
  obtain l r where lr: "face_body srv rgb n t bx = (l, r)"
    by (cases "face_body srv rgb n t bx") auto
  have oc: "(case r of Inl e \<Rightarrow> Failed | Inr None \<Rightarrow> Skipped | Inr (Some f) \<Rightarrow> Appended)
              = box_outcome srv rgb bx"
    using face_body_outcome [of srv rgb n t bx] by (simp add: lr)
  show ?thesis
  proof (cases r)
    case (Inl e)
    with lr oc raised show ?thesis by simp
  next
    case (Inr opt)
    show ?thesis
    proof (cases opt)
      case None
      with Inr lr oc skipped show ?thesis by simp
    next
      case (Some f)
      with Inr lr oc appended show ?thesis by simp
    qed
  qed
qed

lemma boxes_loop_append:
  "boxes_loop srv rgb (xs @ ys) acc = boxes_loop srv rgb ys (boxes_loop srv rgb xs acc)"
proof (induction xs arbitrary: acc)
  case Nil
  show ?case by simp
next
  case (Cons x xs)
  obtain fs t lg where acc: "acc = (fs, t, lg)" by (cases acc) auto
  show ?case
    by (simp add: acc Cons.IH split: prod.splits sum.splits option.splits)
qed

lemma results_loop_concat:
  "results_loop srv rgb results acc = boxes_loop srv rgb (concat results) acc"
  by (induction results arbitrary: acc) (simp_all add: boxes_loop_append)

text \<open>The boxes written are those of the boxes that got through the body, in order.\<close>

lemma boxes_loop_boxes:
  "map box (fst (boxes_loop srv rgb bxs (fs, t, lg))) =
     map box fs @ map xywh (filter (\<lambda>bx. box_outcome srv rgb bx = Appended) bxs)"
proof (induction bxs arbitrary: fs t lg)
  case Nil
  show ?case by simp
next
  case (Cons bx bxs)
  show ?case
  proof (cases rule: face_body_cases [of srv rgb "length fs" t bx])
    case (raised l e)
    then show ?thesis by (simp add: Cons.IH)
  next
    case (skipped l)
    then show ?thesis by (simp add: Cons.IH)
  next
    case (appended l f)
    from face_body_emitted [OF appended(1)] have "box f = xywh bx" by blast
    with appended show ?thesis by (simp add: Cons.IH)
  qed
qed

lemma boxes_loop_ids:
  assumes "map face_id fs = map str_nat [0..<length fs]"
  shows "map face_id (fst (boxes_loop srv rgb bxs (fs, t, lg))) =
     map str_nat [0..<length (fst (boxes_loop srv rgb bxs (fs, t, lg)))]"
  using assms
proof (induction bxs arbitrary: fs t lg)
  case Nil
  then show ?case by simp
next
  case (Cons bx bxs)
  show ?case
  proof (cases rule: face_body_cases [of srv rgb "length fs" t bx])
    case (raised l e)
    then show ?thesis using Cons.prems by (simp add: Cons.IH)
  next
    case (skipped l)
    then show ?thesis using Cons.prems by (simp add: Cons.IH)
  next
    case (appended l f)
    from face_body_emitted [OF appended(1)] have "face_id f = str_nat (length fs)" by blast
    with Cons.prems have "map face_id (fs @ [f]) = map str_nat [0..<length (fs @ [f])]" by simp
    from Cons.IH [OF this] appended show ?thesis by simp
  qed
qed

text \<open>One clock reading is taken for each face appended.\<close>

lemma boxes_loop_clock:
  "fst (snd (boxes_loop srv rgb bxs (fs, t, lg))) + length fs =
     t + length (fst (boxes_loop srv rgb bxs (fs, t, lg)))"
proof (induction bxs arbitrary: fs t lg)
  case Nil
  show ?case by simp
next
  case (Cons bx bxs)
  show ?case
  proof (cases rule: face_body_cases [of srv rgb "length fs" t bx])
    case (raised l e)
    then show ?thesis by (simp add: Cons.IH)
  next
    case (skipped l)
    then show ?thesis by (simp add: Cons.IH)
  next
    case (appended l f)
    then show ?thesis using Cons.IH [of "fs @ [f]" "Suc t" "lg @ l"] by simp
  qed
qed

text \<open>Every face in the result was there before or was appended by the body for a box.\<close>

lemma boxes_loop_origin:
  assumes "f \<in> set (fst (boxes_loop srv rgb bxs (fs, t, lg)))"
  shows "f \<in> set fs \<or> (\<exists>bx n k l. bx \<in> set bxs \<and> face_body srv rgb n k bx = (l, Inr (Some f)))"
  using assms
proof (induction bxs arbitrary: fs t lg)
  case Nil
  then show ?case by simp
next
  case (Cons bx bxs)
  show ?case
  proof (cases rule: face_body_cases [of srv rgb "length fs" t bx])
    case (raised l e)
    with Cons.prems
    have "f \<in> set (fst (boxes_loop srv rgb bxs (fs, t, lg @ l @ [Error_face e, Error_traceback e])))"
      by simp
    from Cons.IH [OF this] show ?thesis by (meson list.set_intros(2))
  next
    case (skipped l)
    with Cons.prems have "f \<in> set (fst (boxes_loop srv rgb bxs (fs, t, lg @ l)))" by simp
    from Cons.IH [OF this] show ?thesis by (meson list.set_intros(2))
  next
    case (appended l g)
    with Cons.prems have "f \<in> set (fst (boxes_loop srv rgb bxs (fs @ [g], Suc t, lg @ l)))" by simp
    from Cons.IH [OF this] consider "f \<in> set fs" | "f = g"
      | "\<exists>bx' n k l'. bx' \<in> set bxs \<and> face_body srv rgb n k bx' = (l', Inr (Some f))"
      by (auto simp del: split_paired_Ex split_paired_All)
    then show ?thesis
    proof cases
      case 1
      then show ?thesis by simp
    next
      case 2
      with appended(1)
      have "bx \<in> set (bx # bxs) \<and> face_body srv rgb (length fs) t bx = (l, Inr (Some f))"
        by simp
      then show ?thesis by blast
    next
      case 3
      then obtain bx' n k l' where "bx' \<in> set bxs" "face_body srv rgb n k bx' = (l', Inr (Some f))"
        by blast
      then have "bx' \<in> set (bx # bxs) \<and> face_body srv rgb n k bx' = (l', Inr (Some f))"
        by simp
      then show ?thesis by blast
    qed
  qed
qed

lemma process_frame_Inr:
  "process_frame srv frame t = Inr r \<longleftrightarrow>
     (\<exists>rgb results. cvtColor_BGR2RGB frame = Inr rgb \<and> model_predict srv frame = Inr results
        \<and> r = boxes_loop srv rgb (concat results) ([], t, []))"
  by (auto simp: process_frame_def results_loop_concat split: sum.splits)

text \<open>
  Every face in the result of \<open>process_frame\<close> comes from a box of the detector whose
  crop the embedder mapped to a probe embedding. Its confidence is what \<open>np.max\<close> returns
  for the similarities computed for that probe. If that value compares greater than 0.6,
  the name is the class at the index the classifier predicts for the probe, read back
  through the label encoder; otherwise the name is \<open>Visitor\<close>.
\<close>

lemma face_name_and_confidence:
  assumes "process_frame srv frame t = Inr (fs, t', lg)" and "f \<in> set fs"
  shows "\<exists>rgb results bx embedding.
           cvtColor_BGR2RGB frame = Inr rgb \<and> model_predict srv frame = Inr results
         \<and> bx \<in> set (concat results)
         \<and> facenet_embeddings srv (face_crop rgb bx) = Inr embedding
         \<and> np_max (fst (calculate_similarity embedding (Y srv))) = Inr (confidence f)
         \<and> (if np_greater (confidence f) (Num (6 / 10))
              then (\<exists>idx. svm_predict srv embedding = Inr idx
                      \<and> inverse_transform (encoder_classes srv) idx = Inr (name f))
              else name f = ''Visitor'')"
proof -
  from assms(1) obtain rgb results where
    cvt: "cvtColor_BGR2RGB frame = Inr rgb" and det: "model_predict srv frame = Inr results"
    and loop: "(fs, t', lg) = boxes_loop srv rgb (concat results) ([], t, [])"
    unfolding process_frame_Inr by blast
  from loop assms(2) have "f \<in> set (fst (boxes_loop srv rgb (concat results) ([], t, [])))"
    by (metis fst_conv)
  from boxes_loop_origin [OF this]
  have "\<exists>bx n k l. bx \<in> set (concat results) \<and> face_body srv rgb n k bx = (l, Inr (Some f))"
    by (simp del: split_paired_Ex set_concat)
  then obtain bx n k l where
    bx: "bx \<in> set (concat results)" and body: "face_body srv rgb n k bx = (l, Inr (Some f))"
    by blast
  from face_body_emitted [OF body] cvt det bx show ?thesis by blast
qed

section \<open>Auxiliary facts about \<open>calculate_similarity\<close>\<close>

lemma sum_squares_zero:
  "sum_list (map (\<lambda>x. x * x) (v::real list)) = 0 \<longleftrightarrow> list_all (\<lambda>x. x = 0) v"
proof (induction v)
  case Nil
  show ?case by simp
next
  case (Cons a v)
  have nn: "0 \<le> sum_list (map (\<lambda>x. x * x) v)"
    by (rule sum_list_nonneg) auto
  have "a * a + sum_list (map (\<lambda>x. x * x) v) = 0 \<longleftrightarrow> a * a = 0 \<and> sum_list (map (\<lambda>x. x * x) v) = 0"
    using nn by (simp add: add_nonneg_eq_0_iff)
  with Cons.IH show ?case by simp
qed

lemma linalg_norm_zero: "linalg_norm v = 0 \<longleftrightarrow> list_all (\<lambda>x. x = 0) v"
  by (simp add: linalg_norm_def sum_squares_zero)

lemma dot_zero_left: "list_all (\<lambda>x. x = 0) u \<Longrightarrow> dot u v = 0"
proof (induction u arbitrary: v)
  case Nil
  show ?case by (simp add: dot_def)
next
  case (Cons a u)
  then show ?case by (cases v) (simp_all add: dot_def)
qed

text \<open>A probe of norm zero gets \<open>nan\<close> against every gallery row, not zero.\<close>

lemma calculate_similarity_zero_norm:
  assumes "linalg_norm embedding1 = 0"
    and "list_all (\<lambda>row. length row = length embedding1) embeddings2"
  shows "calculate_similarity embedding1 embeddings2 = (replicate (length embeddings2) NaN, [])"
proof -
  from assms(1) have "dot embedding1 row = 0" for row
    by (simp add: linalg_norm_zero dot_zero_left)
  with assms show ?thesis
    by (simp add: calculate_similarity_def np_divide_def map_replicate_const)
qed

lemma foldl_np_maximum_Num:
  "foldl np_maximum (Num a) (map Num xs) = Num (fold max xs a)"
proof (induction xs arbitrary: a)
  case Nil
  show ?case by simp
next
  case (Cons x xs)
  have "np_maximum (Num a) (Num x) = Num (max x a)"
    by (simp add: np_maximum_def max_def)
  then show ?case by (simp add: Cons.IH)
qed

text \<open>On finite values, \<open>np.max\<close> is the maximum.\<close>

lemma np_max_Num:
  assumes "xs \<noteq> []"
  shows "np_max (map Num xs) = Inr (Num (Max (set xs)))"
proof -
  from assms obtain a ys where xs: "xs = a # ys" by (cases xs) auto
  show ?thesis
    unfolding xs using Max.set_eq_fold [of a ys] by (simp add: foldl_np_maximum_Num)
qed

section \<open>Evaluation of the concrete server\<close>

lemma sqrt_400: "sqrt 400 = 20"
  by (rule real_sqrt_unique) simp_all

lemma sqrt_25: "sqrt 25 = 5"
  by (rule real_sqrt_unique) simp_all

lemma demo_cvtColor: "0 < h \<Longrightarrow> cvtColor_BGR2RGB (demo_frame h) = Inr (demo_rgb h)"
  by (cases h) (simp_all add: cvtColor_BGR2RGB_def demo_frame_def demo_rgb_def img_size_def)

lemmas demo_eval = face_body_def int_corners_def py_int_def crop_def py_slice_def slice_index_def
  img_size_def demo_rgb_def demo_server_def demo_embeddings_def calculate_similarity_def dot_def
  linalg_norm_def np_divide_def sqrt_400 sqrt_25 np_maximum_def np_greater_def
  inverse_transform_def encoder_classes_def demo_face_def numeral_eq_Suc

lemma demo_body_bob:
  "face_body demo_server (demo_rgb (Suc (Suc (Suc h)))) n t (0, 0, 5 / 2, 29 / 10) =
     ([], Inr (Some (demo_face n ''bob'' (Num (19 / 20)) [0, 0, 2, 2] t)))"
  by (simp add: demo_eval)

lemma demo_body_empty:
  "face_body demo_server (demo_rgb (Suc (Suc (Suc h)))) n t (1, 1, 1, 3) = ([], Inr None)"
  by (simp add: demo_eval)

lemma demo_body_raise:
  "face_body demo_server (demo_rgb (Suc (Suc (Suc h)))) n t (0, 1, 4, 2) =
     ([], Inl (LibraryError ''embedder''))"
  by (simp add: demo_eval)

lemma demo_body_visitor:
  "face_body demo_server (demo_rgb (Suc (Suc (Suc h)))) n t (1 / 5, 0, 37 / 10, 3) =
     ([], Inr (Some (demo_face n ''Visitor'' (Num (3 / 5)) [0, 0, 3, 3] t)))"
  by (simp add: demo_eval)

lemma demo_body_alice:
  "face_body demo_server (demo_rgb (Suc (Suc (Suc (Suc h))))) n t (1, 0, 3, 4) =
     ([], Inr (Some (demo_face n ''alice'' (Num (19 / 20)) [1, 0, 2, 4] t)))"
  by (simp add: demo_eval)

lemma demo_body_zero:
  "face_body demo_server (demo_rgb (Suc (Suc (Suc (Suc (Suc h)))))) n t (0, 0, 4, 5) =
     ([], Inr (Some (demo_face n ''Visitor'' NaN [0, 0, 4, 5] t)))"
  by (simp add: demo_eval)

lemmas demo_body = demo_body_bob demo_body_empty demo_body_raise demo_body_visitor
  demo_body_alice demo_body_zero

lemma demo_model_predict: "model_predict demo_server = demo_predict"
  by (simp add: demo_server_def)

lemma length_demo_frame: "length (demo_frame h) = h"
  by (simp add: demo_frame_def)

text \<open>Frame 5: a face, an empty crop, an embedder failure, a face.\<close>

lemma demo_process_frame_5:
  "process_frame demo_server (demo_frame 5) t =
     Inr ([demo_face 0 ''bob'' (Num (19 / 20)) [0, 0, 2, 2] t,
           demo_face 1 ''Visitor'' (Num (3 / 5)) [0, 0, 3, 3] (Suc t)], Suc (Suc t),
          [Error_face (LibraryError ''embedder''), Error_traceback (LibraryError ''embedder'')])"
  by (simp add: process_frame_def demo_cvtColor demo_model_predict demo_predict_def
      length_demo_frame) (simp add: numeral_eq_Suc demo_body)

lemma demo_process_frame_6:
  "process_frame demo_server (demo_frame 6) t =
     Inr ([demo_face 0 ''bob'' (Num (19 / 20)) [0, 0, 2, 2] t,
           demo_face 1 ''Visitor'' (Num (3 / 5)) [0, 0, 3, 3] (Suc t)], Suc (Suc t),
          [Error_face (LibraryError ''embedder''), Error_traceback (LibraryError ''embedder'')])"
  by (simp add: process_frame_def demo_cvtColor demo_model_predict demo_predict_def
      length_demo_frame) (simp add: numeral_eq_Suc demo_body)

lemma demo_process_frame_7:
  "process_frame demo_server (demo_frame 7) t =
     Inr ([demo_face 0 ''alice'' (Num (19 / 20)) [1, 0, 2, 4] t], Suc t, [])"
  by (simp add: process_frame_def demo_cvtColor demo_model_predict demo_predict_def
      length_demo_frame) (simp add: numeral_eq_Suc demo_body)

lemma demo_process_frame_8:
  "process_frame demo_server (demo_frame 8) t =
     Inr ([demo_face 0 ''Visitor'' NaN [0, 0, 4, 5] t], Suc t, [])"
  by (simp add: process_frame_def demo_cvtColor demo_model_predict demo_predict_def
      length_demo_frame) (simp add: numeral_eq_Suc demo_body)

lemma demo_process_frame_9:
  "process_frame demo_server (demo_frame 9) t = Inr ([], t, [])"
  by (simp add: process_frame_def demo_cvtColor demo_model_predict demo_predict_def
      length_demo_frame)

lemma demo_process_frame_10:
  "process_frame demo_server (demo_frame 10) t =
     Inr ([demo_face 0 ''bob'' (Num (19 / 20)) [0, 0, 2, 2] t], Suc t, [])"
  by (simp add: process_frame_def demo_cvtColor demo_model_predict demo_predict_def
      length_demo_frame) (simp add: numeral_eq_Suc demo_body)

lemma demo_process_frame_11:
  "process_frame demo_server (demo_frame 11) t = Inl (LibraryError ''detector'')"
  by (simp add: process_frame_def demo_cvtColor demo_model_predict demo_predict_def
      length_demo_frame)


section \<open>The threshold decision\<close>

text \<open>
  C1, evaluated on the concrete server whose gallery has a row of norm zero. The probe of
  frame 7 has cosine similarity 0.95 to the row labelled \<open>alice\<close>, and the classifier's
  index for it reads back as \<open>alice\<close>. Against the row of norm zero the division returns
  \<open>nan\<close>, \<open>np.max\<close> of the similarities is \<open>nan\<close>, and the comparison with 0.6 is
  false: the face is appended with the name \<open>Visitor\<close> and the confidence \<open>nan\<close>, not
  with the classifier's label and the confidence 0.95.
\<close>

theorem zero_norm_gallery_row_hides_the_match:
  "Y degenerate_server = [[1, 0, 0, 0, 0], [0, 0, 0, 0, 0]]
   \<and> facenet_embeddings degenerate_server (face_crop (demo_rgb 7) (1, 0, 3, 4)) = Inr [19, 1, 2, 3, 5]
   \<and> calculate_similarity [19, 1, 2, 3, 5] (Y degenerate_server) = ([Num (95 / 100), NaN], [])
   \<and> svm_predict degenerate_server [19, 1, 2, 3, 5] = Inr 0
   \<and> inverse_transform (encoder_classes degenerate_server) 0 = Inr ''alice''
   \<and> process_frame degenerate_server (demo_frame 7) 0 =
       Inr ([\<lparr>face_id = ''0'', name = ''Visitor'', confidence = NaN, box = [1, 0, 2, 4],
              timestamp = 1700000000000\<rparr>], 1, [])"
proof -
  have y: "Y degenerate_server = [[1, 0, 0, 0, 0], [0, 0, 0, 0, 0]]"
    by (simp add: degenerate_server_def)
  have emb: "facenet_embeddings degenerate_server (face_crop (demo_rgb 7) (1, 0, 3, 4)) = Inr [19, 1, 2, 3, 5]"
    by (simp add: degenerate_server_def demo_server_def demo_embeddings_def face_crop_def
        int_corners_def py_int_def crop_def py_slice_def slice_index_def demo_rgb_def)
  have sim: "calculate_similarity [19, 1, 2, 3, 5] (Y degenerate_server) = ([Num (95 / 100), NaN], [])"
    by (simp add: y calculate_similarity_def dot_def linalg_norm_def np_divide_def sqrt_400)
  have svm: "svm_predict degenerate_server [19, 1, 2, 3, 5] = Inr 0"
    by (simp add: degenerate_server_def demo_server_def)
  have inv: "inverse_transform (encoder_classes degenerate_server) 0 = Inr ''alice''"
    by (simp add: inverse_transform_def encoder_classes_def degenerate_server_def demo_server_def)
  have body: "face_body degenerate_server (demo_rgb 7) 0 0 (1, 0, 3, 4) =
      ([], Inr (Some \<lparr>face_id = ''0'', name = ''Visitor'', confidence = NaN, box = [1, 0, 2, 4],
              timestamp = 1700000000000\<rparr>))"
    by (simp add: degenerate_server_def demo_eval str_nat.simps digit_char_def)
  have det: "model_predict degenerate_server (demo_frame 7) = Inr [[(1, 0, 3, 4)]]"
    by (simp add: degenerate_server_def demo_model_predict demo_predict_def length_demo_frame)
  have run: "process_frame degenerate_server (demo_frame 7) 0 =
       Inr ([\<lparr>face_id = ''0'', name = ''Visitor'', confidence = NaN, box = [1, 0, 2, 4],
              timestamp = 1700000000000\<rparr>], 1, [])"
    by (simp add: process_frame_def demo_cvtColor det body)
  from y emb sim svm inv run show ?thesis by (intro conjI)
qed


section \<open>Per-face failures\<close>




section \<open>Face identifiers\<close>

text \<open>
  C10. In every result of \<open>process_frame\<close>, the id of the face at position \<open>i\<close> is the
  decimal string of \<open>i\<close>: the ids are \<open>0, 1, ...\<close> without gaps, whichever boxes were
  skipped or failed in between.
\<close>

theorem face_ids_are_positions:
  assumes "process_frame srv frame t = Inr (fs, t', lg)"
  shows "map face_id fs = map str_nat [0..<length fs]"
proof -
  from assms obtain rgb results where
    loop: "(fs, t', lg) = boxes_loop srv rgb (concat results) ([], t, [])"
    unfolding process_frame_Inr by blast
  have "map face_id (fst (boxes_loop srv rgb (concat results) ([], t, []))) =
          map str_nat [0..<length (fst (boxes_loop srv rgb (concat results) ([], t, [])))]"
    by (rule boxes_loop_ids) simp
  with loop show ?thesis by (metis fst_conv)
qed

theorem face_ids_are_positions_witness:
  "process_frame demo_server (demo_frame 5) 0 =
     Inr ([demo_face 0 ''bob'' (Num (19 / 20)) [0, 0, 2, 2] 0,
           demo_face 1 ''Visitor'' (Num (3 / 5)) [0, 0, 3, 3] 1], 2,
          [Error_face (LibraryError ''embedder''), Error_traceback (LibraryError ''embedder'')])
   \<and> map face_id [demo_face 0 ''bob'' (Num (19 / 20)) [0, 0, 2, 2] 0,
                   demo_face 1 ''Visitor'' (Num (3 / 5)) [0, 0, 3, 3] 1] = [''0'', ''1'']"
proof -
  let ?b = "demo_face 0 ''bob'' (Num (19 / 20)) [0, 0, 2, 2] 0"
  let ?v = "demo_face 1 ''Visitor'' (Num (3 / 5)) [0, 0, 3, 3] 1"
  let ?lg = "[Error_face (LibraryError ''embedder''), Error_traceback (LibraryError ''embedder'')]"
  have run: "process_frame demo_server (demo_frame 5) 0 = Inr ([?b, ?v], 2, ?lg)"
    using demo_process_frame_5 [of 0] by (simp add: numeral_2_eq_2)
  have "[0..<length [?b, ?v]] = [0, 1]" by (simp add: upt_rec)
  with face_ids_are_positions [OF run] run show ?thesis
    by (simp add: str_nat.simps digit_char_def)
qed


section \<open>The probe of norm zero\<close>

text \<open>
  C2, evaluated on the concrete server. Frame 8 has one box whose crop the embedder maps to
  the zero vector. \<open>calculate_similarity\<close> does not raise and does not reach its \<open>except\<close>
  branch: the division returns \<open>nan\<close> for every gallery row. The face is appended with the
  name \<open>Visitor\<close>, and its confidence is \<open>nan\<close>, not 0.
\<close>

theorem zero_norm_probe_gets_nan:
  "facenet_embeddings demo_server (face_crop (demo_rgb 8) (0, 0, 4, 5)) = Inr [0, 0, 0, 0, 0]
   \<and> calculate_similarity [0, 0, 0, 0, 0] (Y demo_server) = ([NaN, NaN], [])
   \<and> process_frame demo_server (demo_frame 8) 0 =
       Inr ([\<lparr>face_id = ''0'', name = ''Visitor'', confidence = NaN, box = [0, 0, 4, 5],
              timestamp = 1700000000000\<rparr>], 1, [])"
proof -
  have "facenet_embeddings demo_server (face_crop (demo_rgb 8) (0, 0, 4, 5)) = Inr [0, 0, 0, 0, 0]"
    by (simp add: demo_server_def demo_embeddings_def face_crop_def int_corners_def py_int_def
        crop_def py_slice_def slice_index_def demo_rgb_def)
  moreover have "calculate_similarity [0, 0, 0, 0, 0] (Y demo_server) = ([NaN, NaN], [])"
    by (simp add: calculate_similarity_def demo_server_def dot_def linalg_norm_def np_divide_def)
  moreover have "process_frame demo_server (demo_frame 8) 0 =
       Inr ([\<lparr>face_id = ''0'', name = ''Visitor'', confidence = NaN, box = [0, 0, 4, 5],
              timestamp = 1700000000000\<rparr>], 1, [])"
    using demo_process_frame_8 [of 0]
    by (simp add: demo_face_def demo_server_def py_int_def str_nat.simps digit_char_def)
  ultimately show ?thesis by simp
qed


section \<open>The box written and the end-to-end case\<close>

text \<open>
  C9 as stated fails. On the concrete server, the probe of frame 10 has cosine similarity
  0.95 to the gallery row labelled \<open>alice\<close> (and 0.25 to the row of \<open>bob\<close>), the classifier
  answers class 1, and the face is appended with the name \<open>bob\<close>.
\<close>

theorem classifier_overrides_nearest_gallery_entry:
  "labels demo_server = [''alice'', ''bob'']
   \<and> facenet_embeddings demo_server (face_crop (demo_rgb 10) (0, 0, 5 / 2, 29 / 10)) = Inr [19, 5, 3, 2, 1]
   \<and> calculate_similarity [19, 5, 3, 2, 1] (Y demo_server) = ([Num (95 / 100), Num (25 / 100)], [])
   \<and> process_frame demo_server (demo_frame 10) 0 =
       Inr ([\<lparr>face_id = ''0'', name = ''bob'', confidence = Num (95 / 100), box = [0, 0, 2, 2],
              timestamp = 1700000000000\<rparr>], 1, [])"
proof -
  have "labels demo_server = [''alice'', ''bob'']"
    by (simp add: demo_server_def)
  moreover have "facenet_embeddings demo_server (face_crop (demo_rgb 10) (0, 0, 5 / 2, 29 / 10)) = Inr [19, 5, 3, 2, 1]"
    by (simp add: demo_server_def demo_embeddings_def face_crop_def int_corners_def py_int_def
        crop_def py_slice_def slice_index_def demo_rgb_def)
  moreover have "calculate_similarity [19, 5, 3, 2, 1] (Y demo_server) = ([Num (95 / 100), Num (25 / 100)], [])"
    by (simp add: calculate_similarity_def demo_server_def dot_def linalg_norm_def np_divide_def sqrt_400)
  moreover have "process_frame demo_server (demo_frame 10) 0 =
       Inr ([\<lparr>face_id = ''0'', name = ''bob'', confidence = Num (95 / 100), box = [0, 0, 2, 2],
              timestamp = 1700000000000\<rparr>], 1, [])"
    using demo_process_frame_10 [of 0]
    by (simp add: demo_face_def demo_server_def py_int_def str_nat.simps digit_char_def)
  ultimately show ?thesis by simp
qed


text \<open>
  C9, amended. The boxes of the faces returned are, in order, \<open>[x1, y1, x2 - x1, y2 - y1]\<close>
  of the integer corners of the detector's boxes for which the body appended a face. And
  when the detector reports a single box with a non-empty crop, the maximum similarity of
  its probe is 0.95 and the classifier's index reads back as \<open>alice\<close>, the result is the
  single face with id \<open>0\<close>, name \<open>alice\<close>, confidence 0.95 and that box.
\<close>

theorem box_translation_and_end_to_end:
  "(process_frame srv frame t = Inr (fs, t', lg) \<and> cvtColor_BGR2RGB frame = Inr rgb
      \<and> model_predict srv frame = Inr results
     \<longrightarrow> map box fs = map xywh (filter (\<lambda>bx. box_outcome srv rgb bx = Appended) (concat results)))
   \<and> (cvtColor_BGR2RGB frame = Inr rgb \<and> model_predict srv frame = Inr [[bx]]
      \<and> img_size (face_crop rgb bx) \<noteq> 0
      \<and> facenet_embeddings srv (face_crop rgb bx) = Inr embedding
      \<and> calculate_similarity embedding (Y srv) = (sims, l)
      \<and> np_max sims = Inr (Num (95 / 100))
      \<and> svm_predict srv embedding = Inr idx
      \<and> inverse_transform (encoder_classes srv) idx = Inr ''alice''
     \<longrightarrow> process_frame srv frame t =
           Inr ([\<lparr>face_id = ''0'', name = ''alice'', confidence = Num (95 / 100), box = xywh bx,
                  timestamp = py_int (time_time srv t * 1000)\<rparr>], Suc t, l))"
proof (intro conjI impI)
  assume a: "process_frame srv frame t = Inr (fs, t', lg) \<and> cvtColor_BGR2RGB frame = Inr rgb
      \<and> model_predict srv frame = Inr results"
  then have "(fs, t', lg) = boxes_loop srv rgb (concat results) ([], t, [])"
    by (auto simp: process_frame_Inr)
  then have "fs = fst (boxes_loop srv rgb (concat results) ([], t, []))"
    by (metis fst_conv)
  then show "map box fs = map xywh (filter (\<lambda>bx. box_outcome srv rgb bx = Appended) (concat results))"
    using boxes_loop_boxes [of srv rgb "concat results" "[]" t "[]"] by simp
next
  assume a: "cvtColor_BGR2RGB frame = Inr rgb \<and> model_predict srv frame = Inr [[bx]]
      \<and> img_size (face_crop rgb bx) \<noteq> 0
      \<and> facenet_embeddings srv (face_crop rgb bx) = Inr embedding
      \<and> calculate_similarity embedding (Y srv) = (sims, l)
      \<and> np_max sims = Inr (Num (95 / 100))
      \<and> svm_predict srv embedding = Inr idx
      \<and> inverse_transform (encoder_classes srv) idx = Inr ''alice''"
  then have body: "face_body srv rgb 0 t bx =
        (l, Inr (Some \<lparr>face_id = ''0'', name = ''alice'', confidence = Num (95 / 100), box = xywh bx,
                  timestamp = py_int (time_time srv t * 1000)\<rparr>))"
    by (auto simp: face_body_def face_crop_def xywh_def np_greater_def str_nat.simps digit_char_def
        split: prod.splits)
  from a have "process_frame srv frame t = Inr (boxes_loop srv rgb [bx] ([], t, []))"
    by (simp add: process_frame_def)
  with body show "process_frame srv frame t =
           Inr ([\<lparr>face_id = ''0'', name = ''alice'', confidence = Num (95 / 100), box = xywh bx,
                  timestamp = py_int (time_time srv t * 1000)\<rparr>], Suc t, l)"
    by simp
qed


theorem box_translation_and_end_to_end_witness:
  "cvtColor_BGR2RGB (demo_frame 7) = Inr (demo_rgb 7)
   \<and> model_predict demo_server (demo_frame 7) = Inr [[(1, 0, 3, 4)]]
   \<and> img_size (face_crop (demo_rgb 7) (1, 0, 3, 4)) \<noteq> 0
   \<and> facenet_embeddings demo_server (face_crop (demo_rgb 7) (1, 0, 3, 4)) = Inr [19, 1, 2, 3, 5]
   \<and> calculate_similarity [19, 1, 2, 3, 5] (Y demo_server) = ([Num (95 / 100), Num (5 / 100)], [])
   \<and> np_max [Num (95 / 100), Num (5 / 100)] = Inr (Num (95 / 100))
   \<and> svm_predict demo_server [19, 1, 2, 3, 5] = Inr 0
   \<and> inverse_transform (encoder_classes demo_server) 0 = Inr ''alice''
   \<and> process_frame demo_server (demo_frame 7) 0 =
       Inr ([\<lparr>face_id = ''0'', name = ''alice'', confidence = Num (95 / 100), box = [1, 0, 2, 4],
              timestamp = 1700000000000\<rparr>], 1, [])
   \<and> map box [\<lparr>face_id = ''0'', name = ''alice'', confidence = Num (95 / 100), box = [1, 0, 2, 4],
              timestamp = 1700000000000\<rparr>] =
       map xywh (filter (\<lambda>bx. box_outcome demo_server (demo_rgb 7) bx = Appended) (concat [[(1, 0, 3, 4)]]))"
proof -
  let ?bx = "(1, 0, 3, 4) :: xyxy"
  let ?e = "[19, 1, 2, 3, 5] :: real list"
  let ?sims = "[Num (95 / 100), Num (5 / 100)]"
  let ?f = "\<lparr>face_id = ''0'', name = ''alice'', confidence = Num (95 / 100), box = [1, 0, 2, 4],
              timestamp = 1700000000000\<rparr>"
  have crop7: "face_crop (demo_rgb 7) ?bx = replicate 4 (replicate 2 (30, 20, 10))"
    by (simp add: face_crop_def int_corners_def py_int_def crop_def py_slice_def slice_index_def
        demo_rgb_def)
  have cvt: "cvtColor_BGR2RGB (demo_frame 7) = Inr (demo_rgb 7)"
    by (simp add: demo_cvtColor)
  have det: "model_predict demo_server (demo_frame 7) = Inr [[?bx]]"
    by (simp add: demo_model_predict demo_predict_def length_demo_frame)
  have sz: "img_size (face_crop (demo_rgb 7) ?bx) \<noteq> 0"
    unfolding crop7 by (simp add: img_size_def numeral_eq_Suc)
  have emb: "facenet_embeddings demo_server (face_crop (demo_rgb 7) ?bx) = Inr ?e"
    by (simp add: crop7 demo_server_def demo_embeddings_def)
  have sim: "calculate_similarity ?e (Y demo_server) = (?sims, [])"
    by (simp add: calculate_similarity_def demo_server_def dot_def linalg_norm_def np_divide_def sqrt_400)
  have mx: "np_max ?sims = Inr (Num (95 / 100))"
    by (simp add: np_maximum_def)
  have svm: "svm_predict demo_server ?e = Inr 0"
    by (simp add: demo_server_def)
  have inv: "inverse_transform (encoder_classes demo_server) 0 = Inr ''alice''"
    by (simp add: inverse_transform_def encoder_classes_def demo_server_def)
  note inst = box_translation_and_end_to_end [where srv = demo_server and frame = "demo_frame 7"
      and t = 0 and rgb = "demo_rgb 7" and results = "[[?bx]]" and bx = ?bx and embedding = ?e
      and sims = ?sims and l = "[]" and idx = 0 and fs = "[?f]" and t' = 1 and lg = "[]"]
  from inst cvt det sz emb sim mx svm inv
  have run: "process_frame demo_server (demo_frame 7) 0 = Inr ([?f], 1, [])"
    by (simp add: xywh_def int_corners_def py_int_def demo_server_def)
  from inst run cvt det
  have boxes: "map box [?f] =
      map xywh (filter (\<lambda>bx. box_outcome demo_server (demo_rgb 7) bx = Appended) (concat [[?bx]]))"
    by blast
  from cvt det sz emb sim mx svm inv run boxes show ?thesis by blast
qed


section \<open>Auxiliary facts about the broadcast loop\<close>

lemma sends_append [simp]: "sends (a @ b) = sends a @ sends b"
  by (simp add: sends_def)

lemma dumps_calls_append [simp]: "dumps_calls (a @ b) = dumps_calls a @ dumps_calls b"
  by (simp add: dumps_calls_def)

lemma logged_append [simp]: "logged (a @ b) = logged a @ logged b"
  by (simp add: logged_def)

lemma face_errors_append [simp]: "face_errors (a @ b) = face_errors a @ face_errors b"
  by (simp add: face_errors_def)

lemma send_errors_append [simp]: "send_errors (a @ b) = send_errors a @ send_errors b"
  by (simp add: send_errors_def)

lemma send_failures_append [simp]: "send_failures (a @ b) = send_failures a @ send_failures b"
  by (simp add: send_failures_def)

lemma sends_simps [simp]:
  "sends [] = []"
  "sends (Send ws msg r # tr) = (ws, msg, r) # sends tr"
  "sends (Log lr # tr) = sends tr"
  "sends (Dumps resp # tr) = sends tr"
  "sends (Sleep # tr) = sends tr"
  "sends (Handler_raised ws e # tr) = sends tr"
  by (simp_all add: sends_def)

lemma dumps_calls_simps [simp]:
  "dumps_calls [] = []"
  "dumps_calls (Send ws msg r # tr) = dumps_calls tr"
  "dumps_calls (Log lr # tr) = dumps_calls tr"
  "dumps_calls (Dumps resp # tr) = resp # dumps_calls tr"
  "dumps_calls (Sleep # tr) = dumps_calls tr"
  "dumps_calls (Handler_raised ws e # tr) = dumps_calls tr"
  by (simp_all add: dumps_calls_def)

lemma logged_simps [simp]:
  "logged [] = []"
  "logged (Send ws msg r # tr) = logged tr"
  "logged (Log lr # tr) = lr # logged tr"
  "logged (Dumps resp # tr) = logged tr"
  "logged (Sleep # tr) = logged tr"
  "logged (Handler_raised ws e # tr) = logged tr"
  by (simp_all add: logged_def)

lemma send_failures_simps [simp]:
  "send_failures [] = []"
  "send_failures (Send ws msg None # tr) = send_failures tr"
  "send_failures (Send ws msg (Some e) # tr) = e # send_failures tr"
  "send_failures (Log lr # tr) = send_failures tr"
  "send_failures (Dumps resp # tr) = send_failures tr"
  "send_failures (Sleep # tr) = send_failures tr"
  "send_failures (Handler_raised ws e # tr) = send_failures tr"
  by (simp_all add: send_failures_def)

lemma send_errors_simps [simp]:
  "send_errors [] = []"
  "send_errors (Error_send e # lg) = e # send_errors lg"
  "send_errors (Error_face e # lg) = send_errors lg"
  "send_errors (Error_traceback e # lg) = send_errors lg"
  "send_errors (Error_similarity e # lg) = send_errors lg"
  "send_errors (Error_video_source # lg) = send_errors lg"
  "send_errors (Warning_frame_read # lg) = send_errors lg"
  "send_errors (Info_broadcasting n # lg) = send_errors lg"
  "send_errors (Info_connected ws # lg) = send_errors lg"
  "send_errors (Info_disconnected ws # lg) = send_errors lg"
  by (simp_all add: send_errors_def)

lemma face_errors_simps [simp]:
  "face_errors [] = []"
  "face_errors (Error_send e # lg) = face_errors lg"
  "face_errors (Error_face e # lg) = e # face_errors lg"
  "face_errors (Error_traceback e # lg) = face_errors lg"
  "face_errors (Error_similarity e # lg) = face_errors lg"
  "face_errors (Error_video_source # lg) = face_errors lg"
  "face_errors (Warning_frame_read # lg) = face_errors lg"
  "face_errors (Info_broadcasting n # lg) = face_errors lg"
  "face_errors (Info_connected ws # lg) = face_errors lg"
  "face_errors (Info_disconnected ws # lg) = face_errors lg"
  by (simp_all add: face_errors_def)

lemma logged_map_Log [simp]: "logged (map Log lg) = lg"
  by (induction lg) simp_all

lemma sends_map_Log [simp]: "sends (map Log lg) = []"
  by (induction lg) simp_all

lemma dumps_calls_map_Log [simp]: "dumps_calls (map Log lg) = []"
  by (induction lg) simp_all

lemma send_failures_map_Log [simp]: "send_failures (map Log lg) = []"
  by (induction lg) simp_all

lemma run_events_Nil [simp]: "run_events [] s = s"
  by (simp add: run_events_def)

lemma run_events_Cons [simp]: "run_events (ev # evs) s = run_events evs (handle_connection ev s)"
  by (simp add: run_events_def)

lemma run_events_append: "run_events (a @ b) s = run_events b (run_events a s)"
  by (simp add: run_events_def)

text \<open>A connection handler sends nothing, serialises nothing and logs no error.\<close>

lemma handle_connection_trace:
  "sends (trace (handle_connection ev s)) = sends (trace s)"
  "dumps_calls (trace (handle_connection ev s)) = dumps_calls (trace s)"
  "send_errors (logged (trace (handle_connection ev s))) = send_errors (logged (trace s))"
  "face_errors (logged (trace (handle_connection ev s))) = face_errors (logged (trace s))"
  "clock_reads (handle_connection ev s) = clock_reads s"
  by (cases ev; simp split: sum.splits)+

lemma run_events_trace:
  "sends (trace (run_events evs s)) = sends (trace s)"
  "dumps_calls (trace (run_events evs s)) = dumps_calls (trace s)"
  "send_errors (logged (trace (run_events evs s))) = send_errors (logged (trace s))"
  "face_errors (logged (trace (run_events evs s))) = face_errors (logged (trace s))"
  "clock_reads (run_events evs s) = clock_reads s"
  by (induction evs arbitrary: s; simp add: handle_connection_trace)+

lemma handle_connection_trace2:
  "send_failures (trace (handle_connection ev s)) = send_failures (trace s)"
  by (cases ev; simp split: sum.splits)

lemma run_events_trace2:
  "send_failures (trace (run_events evs s)) = send_failures (trace s)"
  by (induction evs arbitrary: s; simp add: handle_connection_trace2)

text \<open>The registry after a handler depends on the registry before it only.\<close>

lemma handle_connection_conns:
  "active_connections s = active_connections s' \<Longrightarrow>
     active_connections (handle_connection ev s) = active_connections (handle_connection ev s')"
  by (cases ev) (simp_all split: sum.splits)

lemma run_events_conns:
  "active_connections s = active_connections s' \<Longrightarrow>
     active_connections (run_events evs s) = active_connections (run_events evs s')"
proof (induction evs arbitrary: s s')
  case Nil
  then show ?case by simp
next
  case (Cons ev evs)
  from Cons.prems have "active_connections (handle_connection ev s) = active_connections (handle_connection ev s')"
    by (rule handle_connection_conns)
  from Cons.IH [OF this] show ?case by simp
qed

lemma send_loop_Cons:
  "send_loop srv c resp (ws # wss) s =
     send_loop srv c resp wss
       (run_events (during_send c ws)
          (s\<lparr>trace := trace s @ Dumps resp # Send ws (json_dumps srv resp) (ws_send c ws)
                   # (case ws_send c ws of None \<Rightarrow> [] | Some e \<Rightarrow> [Log (Error_send e)])\<rparr>))"
  by (simp add: Let_def split: option.splits)

lemma send_loop_sends:
  "sends (trace (send_loop srv c resp wss s)) =
     sends (trace s) @ map (\<lambda>ws. (ws, json_dumps srv resp, ws_send c ws)) wss"
proof (induction wss arbitrary: s)
  case Nil
  show ?case by simp
next
  case (Cons ws wss)
  show ?case
    unfolding send_loop_Cons Cons.IH
    by (simp add: run_events_trace split: option.splits)
qed

lemma send_loop_dumps:
  "dumps_calls (trace (send_loop srv c resp wss s)) =
     dumps_calls (trace s) @ replicate (length wss) resp"
proof (induction wss arbitrary: s)
  case Nil
  show ?case by simp
next
  case (Cons ws wss)
  show ?case
    unfolding send_loop_Cons Cons.IH
    by (simp add: run_events_trace split: option.splits)
qed

lemma send_loop_conns:
  "active_connections (send_loop srv c resp wss s) =
     active_connections (run_events (concat (map (during_send c) wss)) s)"
proof (induction wss arbitrary: s)
  case Nil
  show ?case by simp
next
  case (Cons ws wss)
  let ?s2 = "s\<lparr>trace := trace s @ Dumps resp # Send ws (json_dumps srv resp) (ws_send c ws)
                   # (case ws_send c ws of None \<Rightarrow> [] | Some e \<Rightarrow> [Log (Error_send e)])\<rparr>"
  have "active_connections ?s2 = active_connections s" by simp
  then have "active_connections (run_events (during_send c ws) ?s2) =
      active_connections (run_events (during_send c ws) s)"
    by (rule run_events_conns)
  then have "active_connections (run_events (concat (map (during_send c) wss)) (run_events (during_send c ws) ?s2))
      = active_connections (run_events (concat (map (during_send c) wss)) (run_events (during_send c ws) s))"
    by (rule run_events_conns)
  then show ?case
    unfolding send_loop_Cons Cons.IH by (simp add: run_events_append)
qed

lemma send_loop_clock: "clock_reads (send_loop srv c resp wss s) = clock_reads s"
proof (induction wss arbitrary: s)
  case Nil
  show ?case by simp
next
  case (Cons ws wss)
  show ?case
    unfolding send_loop_Cons Cons.IH by (simp add: run_events_trace)
qed

text \<open>Every exception of a send is logged, and nothing else is logged as one.\<close>

lemma send_loop_errors:
  "\<exists>es. send_errors (logged (trace (send_loop srv c resp wss s))) = send_errors (logged (trace s)) @ es
      \<and> send_failures (trace (send_loop srv c resp wss s)) = send_failures (trace s) @ es"
proof (induction wss arbitrary: s)
  case Nil
  show ?case by simp
next
  case (Cons ws wss)
  let ?s3 = "run_events (during_send c ws)
          (s\<lparr>trace := trace s @ Dumps resp # Send ws (json_dumps srv resp) (ws_send c ws)
                   # (case ws_send c ws of None \<Rightarrow> [] | Some e \<Rightarrow> [Log (Error_send e)])\<rparr>)"
  let ?e = "(case ws_send c ws of None \<Rightarrow> [] | Some e \<Rightarrow> [e])"
  have a: "send_errors (logged (trace ?s3)) = send_errors (logged (trace s)) @ ?e"
    by (simp add: run_events_trace split: option.splits)
  have b: "send_failures (trace ?s3) = send_failures (trace s) @ ?e"
    by (simp add: run_events_trace2 split: option.splits)
  from Cons.IH [of ?s3] obtain es where
    "send_errors (logged (trace (send_loop srv c resp wss ?s3))) = send_errors (logged (trace ?s3)) @ es"
    "send_failures (trace (send_loop srv c resp wss ?s3)) = send_failures (trace ?s3) @ es"
    by blast
  then have "send_errors (logged (trace (send_loop srv c resp (ws # wss) s))) = send_errors (logged (trace s)) @ (?e @ es)
      \<and> send_failures (trace (send_loop srv c resp (ws # wss) s)) = send_failures (trace s) @ (?e @ es)"
    unfolding send_loop_Cons a b by simp
  then show ?case by blast
qed

lemma send_loop_face_errors:
  "face_errors (logged (trace (send_loop srv c resp wss s))) = face_errors (logged (trace s))"
proof (induction wss arbitrary: s)
  case Nil
  show ?case by simp
next
  case (Cons ws wss)
  show ?case
    unfolding send_loop_Cons Cons.IH by (simp add: run_events_trace split: option.splits)
qed

text \<open>The state after a cycle that read a frame and got through \<open>process_frame\<close>.\<close>

lemma cycle_step_frame:
  assumes "cap_read c = Some frame" and "process_frame srv frame (clock_reads s) = Inr (fs, t, lg)"
  shows "cycle_step srv c s =
     Inr (run_events (during_sleep c)
            ((send_loop srv c (make_response srv fs t) (active_connections s)
                (s\<lparr>clock_reads := Suc t,
                   trace := trace s @ map Log lg @
                     (if active_connections s \<noteq> []
                      then [Log (Info_broadcasting (length (active_connections s)))] else [])\<rparr>))
             \<lparr>trace := trace (send_loop srv c (make_response srv fs t) (active_connections s)
                (s\<lparr>clock_reads := Suc t,
                   trace := trace s @ map Log lg @
                     (if active_connections s \<noteq> []
                      then [Log (Info_broadcasting (length (active_connections s)))] else [])\<rparr>)) @ [Sleep]\<rparr>))"
  using assms by (simp add: cycle_step_def Let_def)

lemma cycle_step_sends:
  assumes "cap_read c = Some frame" and "process_frame srv frame (clock_reads s) = Inr (fs, t, lg)"
  shows "\<exists>s'. cycle_step srv c s = Inr s'
     \<and> sends (trace s') = sends (trace s) @
          map (\<lambda>ws. (ws, json_dumps srv (make_response srv fs t), ws_send c ws)) (active_connections s)
     \<and> dumps_calls (trace s') = dumps_calls (trace s) @
          replicate (length (active_connections s)) (make_response srv fs t)
     \<and> clock_reads s' = Suc t"
  unfolding cycle_step_frame [OF assms]
  by (simp add: run_events_trace send_loop_sends send_loop_dumps send_loop_clock)

lemma cycle_step_conns:
  assumes "cap_read c = Some frame" and "process_frame srv frame (clock_reads s) = Inr (fs, t, lg)"
  shows "\<exists>s'. cycle_step srv c s = Inr s'
     \<and> active_connections s' =
         active_connections (run_events (concat (map (during_send c) (active_connections s)) @ during_sleep c) s)"
proof -
  let ?s2 = "s\<lparr>clock_reads := Suc t,
                   trace := trace s @ map Log lg @
                     (if active_connections s \<noteq> []
                      then [Log (Info_broadcasting (length (active_connections s)))] else [])\<rparr>"
  let ?s3 = "send_loop srv c (make_response srv fs t) (active_connections s) ?s2"
  let ?evs = "concat (map (during_send c) (active_connections s))"
  have "active_connections ?s2 = active_connections s" by simp
  then have "active_connections (run_events ?evs ?s2) = active_connections (run_events ?evs s)"
    by (rule run_events_conns)
  then have "active_connections (?s3\<lparr>trace := trace ?s3 @ [Sleep]\<rparr>) = active_connections (run_events ?evs s)"
    by (simp add: send_loop_conns)
  then have "active_connections (run_events (during_sleep c) (?s3\<lparr>trace := trace ?s3 @ [Sleep]\<rparr>))
      = active_connections (run_events (during_sleep c) (run_events ?evs s))"
    by (rule run_events_conns)
  then show ?thesis
    unfolding cycle_step_frame [OF assms] by (simp add: run_events_append)
qed

lemma face_body_log:
  assumes "face_body srv rgb n t bx = (l, r)"
  shows "face_errors l = [] \<and> send_errors l = []"
  using assms
  by (auto simp: face_body_def calculate_similarity_def Let_def
      split: prod.splits sum.splits if_splits)

text \<open>The clock readings of the faces appended are consecutive.\<close>

lemma boxes_loop_timestamps:
  assumes "map timestamp fs = map (\<lambda>k. py_int (time_time srv k * 1000)) [t0..<t0 + length fs]"
    and "t = t0 + length fs"
  shows "map timestamp (fst (boxes_loop srv rgb bxs (fs, t, lg))) =
     map (\<lambda>k. py_int (time_time srv k * 1000)) [t0..<t0 + length (fst (boxes_loop srv rgb bxs (fs, t, lg)))]"
  using assms
proof (induction bxs arbitrary: fs t lg)
  case Nil
  then show ?case by simp
next
  case (Cons bx bxs)
  show ?case
  proof (cases rule: face_body_cases [of srv rgb "length fs" t bx])
    case (raised l e)
    then show ?thesis using Cons.prems by (simp add: Cons.IH)
  next
    case (skipped l)
    then show ?thesis using Cons.prems by (simp add: Cons.IH)
  next
    case (appended l f)
    from face_body_emitted [OF appended(1)] have "timestamp f = py_int (time_time srv t * 1000)"
      by blast
    with Cons.prems have a: "map timestamp (fs @ [f]) =
        map (\<lambda>k. py_int (time_time srv k * 1000)) [t0..<t0 + length (fs @ [f])]"
      by simp
    from Cons.prems have b: "Suc t = t0 + length (fs @ [f])" by simp
    from Cons.IH [OF a b] appended show ?thesis by simp
  qed
qed

text \<open>One \<open>Face processing error\<close> record is logged for each box whose body raised.\<close>

lemma boxes_loop_face_errors:
  "length (face_errors (snd (snd (boxes_loop srv rgb bxs (fs, t, lg))))) =
     length (face_errors lg) + length (filter (\<lambda>bx. box_outcome srv rgb bx = Failed) bxs)"
proof (induction bxs arbitrary: fs t lg)
  case Nil
  show ?case by simp
next
  case (Cons bx bxs)
  show ?case
  proof (cases rule: face_body_cases [of srv rgb "length fs" t bx])
    case (raised l e)
    with face_body_log [OF raised(1)] show ?thesis by (simp add: Cons.IH)
  next
    case (skipped l)
    with face_body_log [OF skipped(1)] show ?thesis by (simp add: Cons.IH)
  next
    case (appended l f)
    with face_body_log [OF appended(1)] show ?thesis by (simp add: Cons.IH)
  qed
qed

lemma boxes_loop_send_errors:
  "send_errors (snd (snd (boxes_loop srv rgb bxs (fs, t, lg)))) = send_errors lg"
proof (induction bxs arbitrary: fs t lg)
  case Nil
  show ?case by simp
next
  case (Cons bx bxs)
  show ?case
  proof (cases rule: face_body_cases [of srv rgb "length fs" t bx])
    case (raised l e)
    with face_body_log [OF raised(1)] show ?thesis by (simp add: Cons.IH)
  next
    case (skipped l)
    with face_body_log [OF skipped(1)] show ?thesis by (simp add: Cons.IH)
  next
    case (appended l f)
    with face_body_log [OF appended(1)] show ?thesis by (simp add: Cons.IH)
  qed
qed

lemma cycle_step_errors:
  assumes "frame_ok srv c"
  shows "\<exists>s' es. cycle_step srv c s = Inr s'
     \<and> send_errors (logged (trace s')) = send_errors (logged (trace s)) @ es
     \<and> send_failures (trace s') = send_failures (trace s) @ es
     \<and> length (face_errors (logged (trace s'))) =
         length (face_errors (logged (trace s))) + failed_boxes srv c"
proof (cases "cap_read c")
  case None
  then show ?thesis by (simp add: cycle_step_def failed_boxes_def)
next
  case (Some frame)
  with assms obtain rgb results where
    cvt: "cvtColor_BGR2RGB frame = Inr rgb" and det: "model_predict srv frame = Inr results"
    by (cases "model_predict srv frame") (auto simp: frame_ok_def cvtColor_BGR2RGB_def)
  obtain fs t lg where loop: "boxes_loop srv rgb (concat results) ([], clock_reads s, []) = (fs, t, lg)"
    by (cases "boxes_loop srv rgb (concat results) ([], clock_reads s, [])") auto
  have run: "process_frame srv frame (clock_reads s) = Inr (fs, t, lg)"
    unfolding process_frame_Inr using cvt det loop by auto
  have fe: "length (face_errors lg) = failed_boxes srv c"
    using boxes_loop_face_errors [of srv rgb "concat results" "[]" "clock_reads s" "[]"]
    by (simp add: loop failed_boxes_def Some cvt det)
  have se: "send_errors lg = []"
    using boxes_loop_send_errors [of srv rgb "concat results" "[]" "clock_reads s" "[]"]
    by (simp add: loop)
  let ?s2 = "s\<lparr>clock_reads := Suc t,
                   trace := trace s @ map Log lg @
                     (if active_connections s \<noteq> []
                      then [Log (Info_broadcasting (length (active_connections s)))] else [])\<rparr>"
  let ?s3 = "send_loop srv c (make_response srv fs t) (active_connections s) ?s2"
  from send_loop_errors [of srv c "make_response srv fs t" "active_connections s" ?s2]
  obtain es where
    e1: "send_errors (logged (trace ?s3)) = send_errors (logged (trace ?s2)) @ es"
    and e2: "send_failures (trace ?s3) = send_failures (trace ?s2) @ es"
    by blast
  have e3: "face_errors (logged (trace ?s3)) = face_errors (logged (trace ?s2))"
    by (rule send_loop_face_errors)
  have "send_errors (logged (trace (run_events (during_sleep c) (?s3\<lparr>trace := trace ?s3 @ [Sleep]\<rparr>))))
          = send_errors (logged (trace s)) @ es
      \<and> send_failures (trace (run_events (during_sleep c) (?s3\<lparr>trace := trace ?s3 @ [Sleep]\<rparr>)))
          = send_failures (trace s) @ es
      \<and> length (face_errors (logged (trace (run_events (during_sleep c) (?s3\<lparr>trace := trace ?s3 @ [Sleep]\<rparr>)))))
          = length (face_errors (logged (trace s))) + failed_boxes srv c"
    by (simp add: run_events_trace run_events_trace2 e1 e2 e3 se fe)
  then show ?thesis
    unfolding cycle_step_frame [OF Some run] by blast
qed

lemma while_True_errors:
  assumes "list_all (frame_ok srv) cycles"
  shows "\<exists>s' es. while_True srv cycles s = Inr s'
     \<and> send_errors (logged (trace s')) = send_errors (logged (trace s)) @ es
     \<and> send_failures (trace s') = send_failures (trace s) @ es
     \<and> length (face_errors (logged (trace s'))) =
         length (face_errors (logged (trace s))) + sum_list (map (failed_boxes srv) cycles)"
  using assms
proof (induction cycles arbitrary: s)
  case Nil
  show ?case by simp
next
  case (Cons c cycles)
  from Cons.prems have ok: "frame_ok srv c" and rest: "list_all (frame_ok srv) cycles"
    by simp_all
  from cycle_step_errors [OF ok, of s] obtain s1 es1 where
    step: "cycle_step srv c s = Inr s1"
    and a1: "send_errors (logged (trace s1)) = send_errors (logged (trace s)) @ es1"
    and b1: "send_failures (trace s1) = send_failures (trace s) @ es1"
    and c1: "length (face_errors (logged (trace s1))) =
         length (face_errors (logged (trace s))) + failed_boxes srv c"
    by blast
  from Cons.IH [OF rest, of s1] obtain s' es where
    run: "while_True srv cycles s1 = Inr s'"
    and a2: "send_errors (logged (trace s')) = send_errors (logged (trace s1)) @ es"
    and b2: "send_failures (trace s') = send_failures (trace s1) @ es"
    and c2: "length (face_errors (logged (trace s'))) =
         length (face_errors (logged (trace s1))) + sum_list (map (failed_boxes srv) cycles)"
    by blast
  have "while_True srv (c # cycles) s = Inr s'
     \<and> send_errors (logged (trace s')) = send_errors (logged (trace s)) @ (es1 @ es)
     \<and> send_failures (trace s') = send_failures (trace s) @ (es1 @ es)
     \<and> length (face_errors (logged (trace s'))) =
         length (face_errors (logged (trace s))) + sum_list (map (failed_boxes srv) (c # cycles))"
    by (simp add: step run a1 a2 b1 b2 c1 c2)
  then show ?case by blast
qed

lemma demo_response_7: "make_response demo_server [demo_face 0 ''alice'' (Num (19 / 20)) [1, 0, 2, 4] 0] (Suc 0) = alice_response"
  by (simp add: make_response_def alice_response_def demo_face_def demo_server_def py_int_def
      str_nat.simps digit_char_def)

lemma demo_json_dumps_7: "json_dumps demo_server alice_response = ''alice''"
  by (simp add: demo_server_def alice_response_def)

lemma demo_quiet_cycle:
  "cycle_step demo_server (quiet_cycle (demo_frame 7)) (demo_state [1, 2]) = Inr after_quiet_cycle"
proof -
  have c: "cap_read (quiet_cycle (demo_frame 7)) = Some (demo_frame 7)"
    by (simp add: quiet_cycle_def)
  have p: "process_frame demo_server (demo_frame 7) (clock_reads (demo_state [1, 2])) =
      Inr ([demo_face 0 ''alice'' (Num (19 / 20)) [1, 0, 2, 4] 0], Suc 0, [])"
    by (simp add: demo_state_def demo_process_frame_7)
  show ?thesis
    unfolding cycle_step_frame [OF c p] demo_response_7
    by (simp add: demo_state_def quiet_cycle_def after_quiet_cycle_def Let_def demo_json_dumps_7)
qed

lemma demo_busy_cycle:
  "cycle_step demo_server (busy_cycle (demo_frame 7)) (demo_state [1, 2, 3]) = Inr after_busy_cycle"
proof -
  have c: "cap_read (busy_cycle (demo_frame 7)) = Some (demo_frame 7)"
    by (simp add: busy_cycle_def)
  have p: "process_frame demo_server (demo_frame 7) (clock_reads (demo_state [1, 2, 3])) =
      Inr ([demo_face 0 ''alice'' (Num (19 / 20)) [1, 0, 2, 4] 0], Suc 0, [])"
    by (simp add: demo_state_def demo_process_frame_7)
  show ?thesis
    unfolding cycle_step_frame [OF c p] demo_response_7
    by (simp add: demo_state_def busy_cycle_def after_busy_cycle_def Let_def demo_json_dumps_7
        set_add_def set_remove_def)
qed

lemma demo_frame_ok_5: "frame_ok demo_server (busy_cycle (demo_frame 5))"
  by (simp add: frame_ok_def busy_cycle_def demo_model_predict demo_predict_def length_demo_frame
      demo_frame_def img_size_def numeral_eq_Suc)

lemma demo_failed_boxes_5: "failed_boxes demo_server (busy_cycle (demo_frame 5)) = 1"
  by (simp add: failed_boxes_def busy_cycle_def demo_cvtColor demo_model_predict demo_predict_def
      length_demo_frame box_outcome_def) (simp add: numeral_eq_Suc demo_body)

text \<open>The warning of a failed read is logged by nothing but the failed read.\<close>

lemma face_body_no_warning:
  assumes "face_body srv rgb n t bx = (l, r)"
  shows "count_list l Warning_frame_read = 0"
  using assms
  by (auto simp: face_body_def calculate_similarity_def Let_def
      split: prod.splits sum.splits if_splits)

lemma boxes_loop_no_warning:
  "count_list (snd (snd (boxes_loop srv rgb bxs (fs, t, lg)))) Warning_frame_read =
     count_list lg Warning_frame_read"
proof (induction bxs arbitrary: fs t lg)
  case Nil
  show ?case by simp
next
  case (Cons bx bxs)
  show ?case
  proof (cases rule: face_body_cases [of srv rgb "length fs" t bx])
    case (raised l e)
    with face_body_no_warning [OF raised(1)] show ?thesis by (simp add: Cons.IH)
  next
    case (skipped l)
    with face_body_no_warning [OF skipped(1)] show ?thesis by (simp add: Cons.IH)
  next
    case (appended l f)
    with face_body_no_warning [OF appended(1)] show ?thesis by (simp add: Cons.IH)
  qed
qed

lemma handle_connection_no_warning:
  "count_list (logged (trace (handle_connection ev s))) Warning_frame_read =
     count_list (logged (trace s)) Warning_frame_read"
  by (cases ev) (simp_all split: sum.splits)

lemma run_events_no_warning:
  "count_list (logged (trace (run_events evs s))) Warning_frame_read =
     count_list (logged (trace s)) Warning_frame_read"
  by (induction evs arbitrary: s) (simp_all add: handle_connection_no_warning)

lemma send_loop_no_warning:
  "count_list (logged (trace (send_loop srv c resp wss s))) Warning_frame_read =
     count_list (logged (trace s)) Warning_frame_read"
proof (induction wss arbitrary: s)
  case Nil
  show ?case by simp
next
  case (Cons ws wss)
  show ?case
    unfolding send_loop_Cons Cons.IH by (simp add: run_events_no_warning split: option.splits)
qed

text \<open>A cycle logs the warning once when the read failed, and not otherwise.\<close>

lemma cycle_step_warnings:
  assumes "cycle_step srv c s = Inr s'"
  shows "count_list (logged (trace s')) Warning_frame_read =
     count_list (logged (trace s)) Warning_frame_read + (if cap_read c = None then 1 else 0)"
proof (cases "cap_read c")
  case None
  with assms show ?thesis by (auto simp: cycle_step_def)
next
  case (Some frame)
  with assms obtain fs t lg where run: "process_frame srv frame (clock_reads s) = Inr (fs, t, lg)"
    by (cases "process_frame srv frame (clock_reads s)") (auto simp: cycle_step_def)
  then obtain rgb results where
    loop: "(fs, t, lg) = boxes_loop srv rgb (concat results) ([], clock_reads s, [])"
    unfolding process_frame_Inr by blast
  from boxes_loop_no_warning [of srv rgb "concat results" "[]" "clock_reads s" "[]"]
  have lg: "count_list lg Warning_frame_read = 0"
    unfolding loop [symmetric] by simp
  from assms show ?thesis
    unfolding cycle_step_frame [OF Some run]
    by (auto simp: Some run_events_no_warning send_loop_no_warning lg)
qed

lemma while_True_warnings:
  assumes "while_True srv cycles s = Inr s'"
  shows "count_list (logged (trace s')) Warning_frame_read =
     count_list (logged (trace s)) Warning_frame_read + length (filter (\<lambda>c. cap_read c = None) cycles)"
  using assms
proof (induction cycles arbitrary: s)
  case Nil
  then show ?case by simp
next
  case (Cons c cycles)
  from Cons.prems obtain s1 where step: "cycle_step srv c s = Inr s1"
    and rest: "while_True srv cycles s1 = Inr s'"
    by (cases "cycle_step srv c s") auto
  from cycle_step_warnings [OF step] Cons.IH [OF rest] show ?case by simp
qed

text \<open>An exception of the colour conversion or of the detector leaves \<open>process_frame\<close>, the
  cycle and the loop.\<close>

lemma process_frame_escape:
  assumes "cvtColor_BGR2RGB frame = Inl e
           \<or> (cvtColor_BGR2RGB frame = Inr rgb \<and> model_predict srv frame = Inl e)"
  shows "process_frame srv frame t = Inl e"
  using assms by (auto simp: process_frame_def)

lemma cycle_step_escape:
  assumes "cap_read c = Some frame" and "process_frame srv frame (clock_reads s) = Inl e"
  shows "cycle_step srv c s = Inl e"
  using assms by (simp add: cycle_step_def)

lemma while_True_append:
  "while_True srv (xs @ ys) s =
     (case while_True srv xs s of Inl e \<Rightarrow> Inl e | Inr s' \<Rightarrow> while_True srv ys s')"
  by (induction xs arbitrary: s) (simp_all split: sum.splits)

section \<open>What escapes the loop\<close>

text \<open>
  C4 as stated fails. The detector call of \<open>process_frame\<close> stands outside every
  \<open>try\<close>, and \<open>video_stream_loop\<close> does not guard its call of \<open>process_frame\<close>: on the
  concrete server, the detector raises on frame 11 and the exception leaves the loop in the
  first cycle.
\<close>

theorem detector_failure_leaves_the_loop:
  "video_stream_loop demo_server True [quiet_cycle (demo_frame 11)] (demo_state [1]) =
     Raised (LibraryError ''detector'')"
  by (simp add: video_stream_loop_def cycle_step_def quiet_cycle_def demo_state_def
      demo_process_frame_11)


text \<open>
  C4, amended. If in every cycle the frame read (when one was read) is non-empty and the
  detector returns for it, the loop is still streaming after the cycles, whatever the
  per-face failures and the failures of the sends were: the exceptions logged by the
  handler of the send are exactly the exceptions the sends raised, in order, one
  \<open>Face processing error\<close> record was logged for each box whose body raised, and one
  warning was logged for each failed read. And if, after cycles of that kind, a cycle reads
  a frame for which the colour conversion or the detector raises an exception, that
  exception leaves \<open>process_frame\<close> and ends \<open>video_stream_loop\<close>.
\<close>

theorem loop_continues_after_inner_failures:
  "(list_all (frame_ok srv) cycles \<longrightarrow>
      (\<exists>s' es. video_stream_loop srv True cycles s = Streaming s'
         \<and> send_errors (logged (trace s')) = send_errors (logged (trace s)) @ es
         \<and> send_failures (trace s') = send_failures (trace s) @ es
         \<and> length (face_errors (logged (trace s'))) =
             length (face_errors (logged (trace s))) + sum_list (map (failed_boxes srv) cycles)
         \<and> count_list (logged (trace s')) Warning_frame_read =
             count_list (logged (trace s)) Warning_frame_read
               + length (filter (\<lambda>c. cap_read c = None) cycles)))
   \<and> (list_all (frame_ok srv) pre \<and> cap_read c = Some frame
        \<and> (cvtColor_BGR2RGB frame = Inl e
             \<or> (cvtColor_BGR2RGB frame = Inr rgb \<and> model_predict srv frame = Inl e))
      \<longrightarrow> process_frame srv frame t = Inl e
          \<and> video_stream_loop srv True (pre @ c # post) s = Raised e)"
proof (rule conjI; rule impI)
  assume ok: "list_all (frame_ok srv) cycles"
  from while_True_errors [OF ok, of s] obtain s' es where
    run: "while_True srv cycles s = Inr s'"
    and a: "send_errors (logged (trace s')) = send_errors (logged (trace s)) @ es"
    and b: "send_failures (trace s') = send_failures (trace s) @ es"
    and d: "length (face_errors (logged (trace s'))) =
         length (face_errors (logged (trace s))) + sum_list (map (failed_boxes srv) cycles)"
    by blast
  from run have "video_stream_loop srv True cycles s = Streaming s'"
    by (simp add: video_stream_loop_def)
  with a b d while_True_warnings [OF run]
  show "\<exists>s' es. video_stream_loop srv True cycles s = Streaming s'
         \<and> send_errors (logged (trace s')) = send_errors (logged (trace s)) @ es
         \<and> send_failures (trace s') = send_failures (trace s) @ es
         \<and> length (face_errors (logged (trace s'))) =
             length (face_errors (logged (trace s))) + sum_list (map (failed_boxes srv) cycles)
         \<and> count_list (logged (trace s')) Warning_frame_read =
             count_list (logged (trace s)) Warning_frame_read
               + length (filter (\<lambda>c. cap_read c = None) cycles)"
    by blast
next
  assume h: "list_all (frame_ok srv) pre \<and> cap_read c = Some frame
        \<and> (cvtColor_BGR2RGB frame = Inl e
             \<or> (cvtColor_BGR2RGB frame = Inr rgb \<and> model_predict srv frame = Inl e))"
  then have esc: "process_frame srv frame k = Inl e" for k
    by (intro process_frame_escape) blast
  from h have "list_all (frame_ok srv) pre" by blast
  from while_True_errors [OF this, of s] obtain s1 where pre: "while_True srv pre s = Inr s1"
    by blast
  from h esc have "cycle_step srv c s1 = Inl e"
    by (intro cycle_step_escape) auto
  with pre have "while_True srv (pre @ c # post) s = Inl e"
    by (simp add: while_True_append)
  then have "video_stream_loop srv True (pre @ c # post) s = Raised e"
    by (simp add: video_stream_loop_def)
  with esc show "process_frame srv frame t = Inl e
          \<and> video_stream_loop srv True (pre @ c # post) s = Raised e"
    by blast
qed


theorem loop_continues_after_inner_failures_witness:
  "list_all (frame_ok demo_server) [missed_cycle, busy_cycle (demo_frame 5)]
   \<and> (\<exists>s' es. video_stream_loop demo_server True [missed_cycle, busy_cycle (demo_frame 5)]
                  (demo_state [1, 2, 3]) = Streaming s'
        \<and> send_errors (logged (trace s')) = es
        \<and> send_failures (trace s') = es
        \<and> length (face_errors (logged (trace s'))) = 1
        \<and> count_list (logged (trace s')) Warning_frame_read = 1)
   \<and> list_all (frame_ok demo_server) [missed_cycle]
   \<and> cap_read (quiet_cycle (demo_frame 11)) = Some (demo_frame 11)
   \<and> cvtColor_BGR2RGB (demo_frame 11) = Inr (demo_rgb 11)
   \<and> model_predict demo_server (demo_frame 11) = Inl (LibraryError ''detector'')
   \<and> video_stream_loop demo_server True
         ([missed_cycle] @ quiet_cycle (demo_frame 11) # [busy_cycle (demo_frame 5)])
         (demo_state [1, 2, 3]) = Raised (LibraryError ''detector'')
   \<and> cap_read (quiet_cycle []) = Some []
   \<and> cvtColor_BGR2RGB [] = Inl (LibraryError ''cv2.error'')
   \<and> video_stream_loop demo_server True ([missed_cycle] @ quiet_cycle [] # [])
         (demo_state [1, 2, 3]) = Raised (LibraryError ''cv2.error'')"
proof -
  let ?s = "demo_state [1, 2, 3]"
  have ok1: "list_all (frame_ok demo_server) [missed_cycle]"
    by (simp add: frame_ok_def missed_cycle_def)
  have ok: "list_all (frame_ok demo_server) [missed_cycle, busy_cycle (demo_frame 5)]"
    using ok1 by (simp add: demo_frame_ok_5)
  have n: "sum_list (map (failed_boxes demo_server) [missed_cycle, busy_cycle (demo_frame 5)]) = 1"
    by (simp add: demo_failed_boxes_5) (simp add: failed_boxes_def missed_cycle_def)
  have m: "length (filter (\<lambda>c. cap_read c = None) [missed_cycle, busy_cycle (demo_frame 5)]) = 1"
    by (simp add: missed_cycle_def busy_cycle_def)
  have c11: "cap_read (quiet_cycle (demo_frame 11)) = Some (demo_frame 11)"
    by (simp add: quiet_cycle_def)
  have cvt11: "cvtColor_BGR2RGB (demo_frame 11) = Inr (demo_rgb 11)"
    by (simp add: demo_cvtColor)
  have det11: "model_predict demo_server (demo_frame 11) = Inl (LibraryError ''detector'')"
    by (simp add: demo_model_predict demo_predict_def length_demo_frame)
  have c0: "cap_read (quiet_cycle []) = Some []"
    by (simp add: quiet_cycle_def)
  have cvt0: "cvtColor_BGR2RGB [] = Inl (LibraryError ''cv2.error'')"
    by (simp add: cvtColor_BGR2RGB_def img_size_def)
  note a = loop_continues_after_inner_failures [where srv = demo_server and s = ?s
      and cycles = "[missed_cycle, busy_cycle (demo_frame 5)]", THEN conjunct1, rule_format, OF ok]
  note b1 = loop_continues_after_inner_failures [where srv = demo_server and s = ?s
      and pre = "[missed_cycle]" and c = "quiet_cycle (demo_frame 11)" and frame = "demo_frame 11"
      and e = "LibraryError ''detector''" and rgb = "demo_rgb 11"
      and post = "[busy_cycle (demo_frame 5)]", THEN conjunct2, rule_format]
  note b2 = loop_continues_after_inner_failures [where srv = demo_server and s = ?s
      and pre = "[missed_cycle]" and c = "quiet_cycle []" and frame = "[]"
      and e = "LibraryError ''cv2.error''" and post = "[]", THEN conjunct2, rule_format]
  from a n m have A: "\<exists>s' es. video_stream_loop demo_server True [missed_cycle, busy_cycle (demo_frame 5)] ?s
          = Streaming s'
        \<and> send_errors (logged (trace s')) = es
        \<and> send_failures (trace s') = es
        \<and> length (face_errors (logged (trace s'))) = 1
        \<and> count_list (logged (trace s')) Warning_frame_read = 1"
    by (simp add: demo_state_def)
  from b1 ok1 c11 cvt11 det11
  have B1: "video_stream_loop demo_server True
         ([missed_cycle] @ quiet_cycle (demo_frame 11) # [busy_cycle (demo_frame 5)]) ?s
       = Raised (LibraryError ''detector'')"
    by blast
  from b2 ok1 c0 cvt0
  have B2: "video_stream_loop demo_server True ([missed_cycle] @ quiet_cycle [] # []) ?s
       = Raised (LibraryError ''cv2.error'')"
    by blast
  from ok A ok1 c11 cvt11 det11 B1 c0 cvt0 B2 show ?thesis by (intro conjI)
qed


section \<open>The snapshot of the registry\<close>

text \<open>
  C5. In a cycle that read a frame, the sockets sent to are the members of the registry
  when the cycle starts, in the order of the copy, whatever connection events run while the
  loop is suspended in a send or in the sleep: a socket that is removed meanwhile is still
  sent to, one that is added meanwhile is not. After the events connect \<open>a\<close>, connect
  \<open>b\<close>, connect \<open>d\<close>, close \<open>a\<close> on an empty registry, with the three sockets distinct, the
  cycle sends to \<open>b\<close> and \<open>d\<close> and to no other socket.
\<close>

theorem sends_go_to_the_snapshot:
  "(cap_read c = Some frame \<and> cycle_step srv c s = Inr s'
      \<longrightarrow> map fst (sends (trace s')) = map fst (sends (trace s)) @ active_connections s)
   \<and> (a \<noteq> b \<and> a \<noteq> d \<and> b \<noteq> d \<and> active_connections s0 = []
        \<and> s = run_events [Connect a, Connect b, Connect d, Closed a] s0
        \<and> cap_read c = Some frame \<and> cycle_step srv c s = Inr s'
      \<longrightarrow> map fst (sends (trace s')) = map fst (sends (trace s)) @ [b, d])"
proof -
  have first: "map fst (sends (trace s')) = map fst (sends (trace s)) @ active_connections s"
    if "cap_read c = Some frame" and "cycle_step srv c s = Inr s'"
  proof -
    from that obtain fs t lg where run: "process_frame srv frame (clock_reads s) = Inr (fs, t, lg)"
      by (cases "process_frame srv frame (clock_reads s)") (auto simp: cycle_step_def)
    from cycle_step_sends [OF that(1) run] that(2) show ?thesis
      by (auto simp: comp_def)
  qed
  have reg: "active_connections s = [b, d]"
    if "a \<noteq> b" "a \<noteq> d" "b \<noteq> d" "active_connections s0 = []"
      "s = run_events [Connect a, Connect b, Connect d, Closed a] s0"
    using that by (simp add: set_add_def set_remove_def)
  show ?thesis
  proof (intro conjI impI)
    assume "cap_read c = Some frame \<and> cycle_step srv c s = Inr s'"
    then show "map fst (sends (trace s')) = map fst (sends (trace s)) @ active_connections s"
      using first by blast
  next
    assume h: "a \<noteq> b \<and> a \<noteq> d \<and> b \<noteq> d \<and> active_connections s0 = []
        \<and> s = run_events [Connect a, Connect b, Connect d, Closed a] s0
        \<and> cap_read c = Some frame \<and> cycle_step srv c s = Inr s'"
    then have "active_connections s = [b, d]" using reg by blast
    moreover from h have "map fst (sends (trace s')) = map fst (sends (trace s)) @ active_connections s"
      using first by blast
    ultimately show "map fst (sends (trace s')) = map fst (sends (trace s)) @ [b, d]"
      by simp
  qed
qed

theorem sends_go_to_the_snapshot_witness:
  "cap_read (busy_cycle (demo_frame 7)) = Some (demo_frame 7)
   \<and> cycle_step demo_server (busy_cycle (demo_frame 7)) (demo_state [1, 2, 3]) = Inr after_busy_cycle
   \<and> active_connections after_busy_cycle = [1, 2, 4, 5]
   \<and> map fst (sends (trace after_busy_cycle)) = [1, 2, 3]
   \<and> active_connections (demo_state []) = []
   \<and> (\<exists>s'. cycle_step demo_server (busy_cycle (demo_frame 7))
              (run_events [Connect 1, Connect 2, Connect 3, Closed 1] (demo_state [])) = Inr s'
         \<and> map fst (sends (trace s')) = [2, 3])"
proof -
  let ?c = "busy_cycle (demo_frame 7)"
  let ?s = "run_events [Connect 1, Connect 2, Connect 3, Closed 1] (demo_state [])"
  have c: "cap_read ?c = Some (demo_frame 7)"
    by (simp add: busy_cycle_def)
  have st: "cycle_step demo_server ?c (demo_state [1, 2, 3]) = Inr after_busy_cycle"
    by (rule demo_busy_cycle)
  have conns: "active_connections after_busy_cycle = [1, 2, 4, 5]"
    by (simp add: after_busy_cycle_def)
  have e: "active_connections (demo_state []) = []"
    by (simp add: demo_state_def)
  have none: "sends (trace ?s) = []"
    by (simp add: run_events_trace demo_state_def del: run_events_Cons)
  have "clock_reads ?s = 0"
    by (simp add: run_events_trace demo_state_def del: run_events_Cons)
  then have p: "process_frame demo_server (demo_frame 7) (clock_reads ?s) =
      Inr ([demo_face 0 ''alice'' (Num (19 / 20)) [1, 0, 2, 4] 0], Suc 0, [])"
    by (simp add: demo_process_frame_7)
  from cycle_step_sends [OF c p] obtain s2 where st2: "cycle_step demo_server ?c ?s = Inr s2"
    by blast
  note inst1 = sends_go_to_the_snapshot [where srv = demo_server and c = ?c
      and frame = "demo_frame 7" and s = "demo_state [1, 2, 3]" and s' = after_busy_cycle]
  note inst2 = sends_go_to_the_snapshot [where srv = demo_server and c = ?c
      and frame = "demo_frame 7" and s = ?s and s' = s2 and a = 1 and b = 2 and d = 3
      and ?s0.0 = "demo_state []"]
  from inst1 c st have a1: "map fst (sends (trace after_busy_cycle)) = [1, 2, 3]"
    by (simp add: demo_state_def)
  have hyp: "(1::nat) \<noteq> 2 \<and> (1::nat) \<noteq> 3 \<and> (2::nat) \<noteq> 3 \<and> active_connections (demo_state []) = []
        \<and> ?s = run_events [Connect 1, Connect 2, Connect 3, Closed 1] (demo_state [])
        \<and> cap_read ?c = Some (demo_frame 7) \<and> cycle_step demo_server ?c ?s = Inr s2"
    using c st2 e by (simp del: run_events_Cons)
  from inst2 hyp have "map fst (sends (trace s2)) = map fst (sends (trace ?s)) @ [2, 3]"
    by blast
  then have a2: "map fst (sends (trace s2)) = [2, 3]"
    by (simp only: none list.map append_Nil)
  from st2 a2 have "\<exists>s'. cycle_step demo_server ?c ?s = Inr s' \<and> map fst (sends (trace s')) = [2, 3]"
    by (intro exI [of _ s2] conjI)
  with c st conns a1 e show ?thesis by simp
qed


section \<open>Failures of a send\<close>

text \<open>
  C6. In a cycle that read a frame and got through \<open>process_frame\<close>, the cycle completes
  whatever the sends raise. Every socket of the snapshot is sent to, in order, each with the
  outcome of its own send: an exception raised by one send keeps no other socket from its
  send. The registry after the cycle is what the connection events that ran during the
  sends and the sleep make of the registry before it: the outcome of a send plays no part,
  and without such events the registry is unchanged.
\<close>

theorem send_failure_is_isolated:
  assumes "cap_read c = Some frame"
    and "process_frame srv frame (clock_reads s) = Inr (fs, t, lg)"
  shows "\<exists>s'. cycle_step srv c s = Inr s'
     \<and> map (\<lambda>(ws, msg, r). (ws, r)) (sends (trace s')) =
         map (\<lambda>(ws, msg, r). (ws, r)) (sends (trace s)) @
         map (\<lambda>ws. (ws, ws_send c ws)) (active_connections s)
     \<and> active_connections s' =
         active_connections
           (run_events (concat (map (during_send c) (active_connections s)) @ during_sleep c) s)
     \<and> (list_all (\<lambda>ws. during_send c ws = []) (active_connections s) \<and> during_sleep c = []
          \<longrightarrow> active_connections s' = active_connections s)"
proof -
  from cycle_step_sends [OF assms] obtain s' where
    st: "cycle_step srv c s = Inr s'"
    and snd: "sends (trace s') = sends (trace s) @
          map (\<lambda>ws. (ws, json_dumps srv (make_response srv fs t), ws_send c ws)) (active_connections s)"
    by blast
  from cycle_step_conns [OF assms] st
  have conns: "active_connections s' =
         active_connections
           (run_events (concat (map (during_send c) (active_connections s)) @ during_sleep c) s)"
    by simp
  from snd have att: "map (\<lambda>(ws, msg, r). (ws, r)) (sends (trace s')) =
         map (\<lambda>(ws, msg, r). (ws, r)) (sends (trace s)) @
         map (\<lambda>ws. (ws, ws_send c ws)) (active_connections s)"
    by (simp add: comp_def)
  have same: "active_connections s' = active_connections s"
    if h: "list_all (\<lambda>ws. during_send c ws = []) (active_connections s) \<and> during_sleep c = []"
  proof -
    from h have "concat (map (during_send c) (active_connections s)) = []"
      by (simp add: list_all_iff)
    with h conns show ?thesis by simp
  qed
  from st att conns same show ?thesis by blast
qed

theorem send_failure_is_isolated_witness:
  "cap_read (failing_cycle (demo_frame 7)) = Some (demo_frame 7)
   \<and> process_frame demo_server (demo_frame 7) (clock_reads (demo_state [1, 2])) =
       Inr ([demo_face 0 ''alice'' (Num (19 / 20)) [1, 0, 2, 4] 0], 1, [])
   \<and> list_all (\<lambda>ws. during_send (failing_cycle (demo_frame 7)) ws = []) (active_connections (demo_state [1, 2]))
   \<and> during_sleep (failing_cycle (demo_frame 7)) = []
   \<and> (\<exists>s'. cycle_step demo_server (failing_cycle (demo_frame 7)) (demo_state [1, 2]) = Inr s'
        \<and> map (\<lambda>(ws, msg, r). (ws, r)) (sends (trace s')) =
            [(1, Some (LibraryError ''ConnectionClosed'')), (2, Some (LibraryError ''ConnectionClosed''))]
        \<and> active_connections s' = [1, 2])"
proof -
  let ?c = "failing_cycle (demo_frame 7)"
  have c: "cap_read ?c = Some (demo_frame 7)"
    by (simp add: failing_cycle_def)
  have p: "process_frame demo_server (demo_frame 7) (clock_reads (demo_state [1, 2])) =
      Inr ([demo_face 0 ''alice'' (Num (19 / 20)) [1, 0, 2, 4] 0], 1, [])"
    by (simp add: demo_state_def demo_process_frame_7)
  have q1: "list_all (\<lambda>ws. during_send ?c ws = []) (active_connections (demo_state [1, 2]))"
    by (simp add: failing_cycle_def demo_state_def)
  have q2: "during_sleep ?c = []"
    by (simp add: failing_cycle_def)
  from send_failure_is_isolated [OF c p] q1 q2 obtain s' where
    st: "cycle_step demo_server ?c (demo_state [1, 2]) = Inr s'"
    and a: "map (\<lambda>(ws, msg, r). (ws, r)) (sends (trace s')) =
         map (\<lambda>(ws, msg, r). (ws, r)) (sends (trace (demo_state [1, 2]))) @
         map (\<lambda>ws. (ws, ws_send ?c ws)) (active_connections (demo_state [1, 2]))"
    and b: "active_connections s' = active_connections (demo_state [1, 2])"
    by blast
  from a have a': "map (\<lambda>(ws, msg, r). (ws, r)) (sends (trace s')) =
            [(1, Some (LibraryError ''ConnectionClosed'')), (2, Some (LibraryError ''ConnectionClosed''))]"
    by (simp add: demo_state_def failing_cycle_def)
  from b have b': "active_connections s' = [1, 2]"
    by (simp add: demo_state_def)
  from st a' b' have "\<exists>s'. cycle_step demo_server ?c (demo_state [1, 2]) = Inr s'
        \<and> map (\<lambda>(ws, msg, r). (ws, r)) (sends (trace s')) =
            [(1, Some (LibraryError ''ConnectionClosed'')), (2, Some (LibraryError ''ConnectionClosed''))]
        \<and> active_connections s' = [1, 2]"
    by (intro exI [of _ s'] conjI)
  with c p q1 q2 show ?thesis by (intro conjI)
qed


section \<open>Serialisation\<close>

text \<open>
  C7 as stated fails: \<open>json.dumps(response)\<close> is evaluated inside the loop over the
  sockets. In the quiet cycle on frame 7 with the sockets 1 and 2, it is called twice.
\<close>

theorem payload_is_serialised_for_each_subscriber:
  "cycle_step demo_server (quiet_cycle (demo_frame 7)) (demo_state [1, 2]) = Inr after_quiet_cycle
   \<and> dumps_calls (trace after_quiet_cycle) = [alice_response, alice_response]"
proof -
  have "dumps_calls (trace after_quiet_cycle) = [alice_response, alice_response]"
    by (simp add: after_quiet_cycle_def)
  with demo_quiet_cycle show ?thesis by (intro conjI)
qed


text \<open>
  C7, amended. In a cycle that read a frame and got through \<open>process_frame\<close>, the response
  is serialised once for each socket of the snapshot, always the same response, and every
  socket is sent the same message, the serialisation of that response.
\<close>

theorem every_subscriber_gets_the_same_message:
  assumes "cap_read c = Some frame"
    and "process_frame srv frame (clock_reads s) = Inr (fs, t, lg)"
  shows "\<exists>s'. cycle_step srv c s = Inr s'
     \<and> dumps_calls (trace s') =
         dumps_calls (trace s) @ replicate (length (active_connections s)) (make_response srv fs t)
     \<and> map (\<lambda>(ws, msg, r). msg) (sends (trace s')) =
         map (\<lambda>(ws, msg, r). msg) (sends (trace s)) @
         replicate (length (active_connections s)) (json_dumps srv (make_response srv fs t))"
proof -
  from cycle_step_sends [OF assms] obtain s' where
    st: "cycle_step srv c s = Inr s'"
    and snd: "sends (trace s') = sends (trace s) @
          map (\<lambda>ws. (ws, json_dumps srv (make_response srv fs t), ws_send c ws)) (active_connections s)"
    and dmp: "dumps_calls (trace s') = dumps_calls (trace s) @
          replicate (length (active_connections s)) (make_response srv fs t)"
    by blast
  from snd have "map (\<lambda>(ws, msg, r). msg) (sends (trace s')) =
         map (\<lambda>(ws, msg, r). msg) (sends (trace s)) @
         replicate (length (active_connections s)) (json_dumps srv (make_response srv fs t))"
    by (simp add: comp_def map_replicate_const)
  with st dmp show ?thesis by blast
qed

theorem every_subscriber_gets_the_same_message_witness:
  "cap_read (busy_cycle (demo_frame 7)) = Some (demo_frame 7)
   \<and> process_frame demo_server (demo_frame 7) (clock_reads (demo_state [1, 2, 3])) =
       Inr ([demo_face 0 ''alice'' (Num (19 / 20)) [1, 0, 2, 4] 0], 1, [])
   \<and> cycle_step demo_server (busy_cycle (demo_frame 7)) (demo_state [1, 2, 3]) = Inr after_busy_cycle
   \<and> dumps_calls (trace after_busy_cycle) = [alice_response, alice_response, alice_response]
   \<and> map (\<lambda>(ws, msg, r). msg) (sends (trace after_busy_cycle)) = [''alice'', ''alice'', ''alice'']"
proof -
  let ?c = "busy_cycle (demo_frame 7)"
  have c: "cap_read ?c = Some (demo_frame 7)"
    by (simp add: busy_cycle_def)
  have p: "process_frame demo_server (demo_frame 7) (clock_reads (demo_state [1, 2, 3])) =
      Inr ([demo_face 0 ''alice'' (Num (19 / 20)) [1, 0, 2, 4] 0], 1, [])"
    by (simp add: demo_state_def demo_process_frame_7)
  have st: "cycle_step demo_server ?c (demo_state [1, 2, 3]) = Inr after_busy_cycle"
    by (rule demo_busy_cycle)
  from every_subscriber_gets_the_same_message [OF c p] st
  have "dumps_calls (trace after_busy_cycle) = [alice_response, alice_response, alice_response]
     \<and> map (\<lambda>(ws, msg, r). msg) (sends (trace after_busy_cycle)) = [''alice'', ''alice'', ''alice'']"
    by (simp add: demo_response_7 demo_json_dumps_7 demo_state_def)
  with c p st show ?thesis by (intro conjI) simp_all
qed


section \<open>The status of the response\<close>

text \<open>
  C8. In a cycle that read a frame and got through \<open>process_frame\<close> with the faces \<open>fs\<close>,
  the response serialised for every socket has \<open>isDetecting\<close> true and these faces. The
  faces carry the clock readings taken one after the other while the frame was processed,
  and \<open>lastUpdated\<close> is the next reading, taken when \<open>process_frame\<close> has returned, in
  milliseconds. When the detector reports no box, the faces of the response are empty.
\<close>

theorem response_status_and_faces:
  assumes "cap_read c = Some frame"
    and "process_frame srv frame (clock_reads s) = Inr (fs, t, lg)"
  shows "\<exists>s' resp. cycle_step srv c s = Inr s'
     \<and> dumps_calls (trace s') = dumps_calls (trace s) @ replicate (length (active_connections s)) resp
     \<and> isDetecting (status resp) = True
     \<and> lastUpdated (status resp) = py_int (time_time srv (clock_reads s + length fs) * 1000)
     \<and> faces resp = fs
     \<and> map timestamp fs =
         map (\<lambda>k. py_int (time_time srv k * 1000)) [clock_reads s..<clock_reads s + length fs]
     \<and> (model_predict srv frame = Inr results \<and> concat results = [] \<longrightarrow> faces resp = [])"
proof -
  from assms(2) obtain rgb res where
    det: "model_predict srv frame = Inr res"
    and loop: "(fs, t, lg) = boxes_loop srv rgb (concat res) ([], clock_reads s, [])"
    unfolding process_frame_Inr by blast
  let ?r = "boxes_loop srv rgb (concat res) ([], clock_reads s, [])"
  from loop have fs: "fs = fst ?r" and t: "t = fst (snd ?r)"
    by (metis fst_conv snd_conv)+
  from boxes_loop_clock [of srv rgb "concat res" "[]" "clock_reads s" "[]"]
  have t': "t = clock_reads s + length fs"
    by (simp add: fs t)
  have ts: "map timestamp fs =
         map (\<lambda>k. py_int (time_time srv k * 1000)) [clock_reads s..<clock_reads s + length fs]"
    unfolding fs by (rule boxes_loop_timestamps) simp_all
  have none: "fs = []" if "model_predict srv frame = Inr results \<and> concat results = []"
  proof -
    from that det have "concat res = []" by (simp del: concat_eq_Nil_conv)
    with loop show ?thesis by simp
  qed
  from cycle_step_sends [OF assms] obtain s' where
    st: "cycle_step srv c s = Inr s'"
    and dmp: "dumps_calls (trace s') = dumps_calls (trace s) @
          replicate (length (active_connections s)) (make_response srv fs t)"
    by blast
  have "cycle_step srv c s = Inr s'
     \<and> dumps_calls (trace s') = dumps_calls (trace s) @
          replicate (length (active_connections s)) (make_response srv fs t)
     \<and> isDetecting (status (make_response srv fs t)) = True
     \<and> lastUpdated (status (make_response srv fs t)) = py_int (time_time srv (clock_reads s + length fs) * 1000)
     \<and> faces (make_response srv fs t) = fs
     \<and> map timestamp fs =
         map (\<lambda>k. py_int (time_time srv k * 1000)) [clock_reads s..<clock_reads s + length fs]
     \<and> (model_predict srv frame = Inr results \<and> concat results = [] \<longrightarrow>
           faces (make_response srv fs t) = [])"
    using st dmp ts none by (simp add: make_response_def t')
  then show ?thesis by blast
qed


theorem response_status_and_faces_witness:
  "cap_read (quiet_cycle (demo_frame 9)) = Some (demo_frame 9)
   \<and> process_frame demo_server (demo_frame 9) (clock_reads (demo_state [1, 2])) = Inr ([], 0, [])
   \<and> model_predict demo_server (demo_frame 9) = Inr [[]]
   \<and> (\<exists>s' resp. cycle_step demo_server (quiet_cycle (demo_frame 9)) (demo_state [1, 2]) = Inr s'
         \<and> dumps_calls (trace s') = [resp, resp]
         \<and> isDetecting (status resp) = True
         \<and> lastUpdated (status resp) = 1700000000000
         \<and> faces resp = [])"
proof -
  let ?c = "quiet_cycle (demo_frame 9)"
  have c: "cap_read ?c = Some (demo_frame 9)"
    by (simp add: quiet_cycle_def)
  have p: "process_frame demo_server (demo_frame 9) (clock_reads (demo_state [1, 2])) = Inr ([], 0, [])"
    by (simp add: demo_state_def demo_process_frame_9)
  have det: "model_predict demo_server (demo_frame 9) = Inr [[]]"
    by (simp add: demo_model_predict demo_predict_def length_demo_frame)
  have now: "py_int (time_time demo_server 0 * 1000) = 1700000000000"
    by (simp add: demo_server_def py_int_def)
  from response_status_and_faces [OF c p, where results = "[[]]"] obtain s' resp where
    "cycle_step demo_server ?c (demo_state [1, 2]) = Inr s'"
    "dumps_calls (trace s') = dumps_calls (trace (demo_state [1, 2])) @
        replicate (length (active_connections (demo_state [1, 2]))) resp"
    "isDetecting (status resp) = True"
    "lastUpdated (status resp) = py_int (time_time demo_server (clock_reads (demo_state [1, 2]) + length ([]::detected_face list)) * 1000)"
    "faces resp = []"
    by blast
  then have "cycle_step demo_server ?c (demo_state [1, 2]) = Inr s'
         \<and> dumps_calls (trace s') = [resp, resp]
         \<and> isDetecting (status resp) = True
         \<and> lastUpdated (status resp) = 1700000000000
         \<and> faces resp = []"
    using now by (simp add: demo_state_def)
  then have "\<exists>s' resp. cycle_step demo_server ?c (demo_state [1, 2]) = Inr s'
         \<and> dumps_calls (trace s') = [resp, resp]
         \<and> isDetecting (status resp) = True
         \<and> lastUpdated (status resp) = 1700000000000
         \<and> faces resp = []"
    by (intro exI [of _ s'] exI [of _ resp])
  with c p det show ?thesis by (intro conjI)
qed


end
